theory Spec2Isabelle
  imports Main "HOL-Library.AList"
begin

section \<open>Values that cross the interceptor's boundary\<close>

text \<open>
  The retry condition, the callbacks and the continuations of \<^verbatim>\<open>src/index.ts\<close> receive
  an \<^verbatim>\<open>error: any\<close>. The code only ever reads \<^verbatim>\<open>error?.name\<close> and
  \<^verbatim>\<open>error?.message\<close>, so an error is either \<^verbatim>\<open>null\<close>/\<^verbatim>\<open>undefined\<close> or a value with an
  optional name and an optional message.
\<close>

datatype js_error = ErrNull | ErrObj "string option" "string option"

fun error_name :: "js_error \<Rightarrow> string option" where
  "error_name ErrNull = None"
| "error_name (ErrObj n m) = n"

fun error_message :: "js_error \<Rightarrow> string option" where
  "error_message ErrNull = None"
| "error_message (ErrObj n m) = m"

text \<open>
  Of a \<^verbatim>\<open>Response\<close> the code reads \<^verbatim>\<open>status\<close> and \<^verbatim>\<open>ok\<close>. Both are kept as
  independent fields: nothing in the interceptor relates them.
\<close>

record response =
  status :: int
  ok :: bool
  body :: string

record request_init =
  http_method :: "string option"
  req_body :: "string option"
  headers :: "(string \<times> string) list"

text \<open>What awaiting \<^verbatim>\<open>originalMethods.fetch(url, options)\<close> produces.\<close>

datatype outcome = Returned response | Threw js_error

section \<open>The default retry condition\<close>

fun startsWith :: "string \<Rightarrow> string \<Rightarrow> bool" where
  "startsWith s [] = True"
| "startsWith [] (p # ps) = False"
| "startsWith (c # cs) (p # ps) = (c = p \<and> startsWith cs ps)"

text \<open>\<^verbatim>\<open>String.prototype.includes\<close>: the second string occurs somewhere in the first.\<close>

fun str_includes :: "string \<Rightarrow> string \<Rightarrow> bool" where
  "str_includes [] sub = (sub = [])"
| "str_includes (c # cs) sub = (startsWith (c # cs) sub \<or> str_includes cs sub)"

text \<open>
  \<^verbatim>\<open>
  private defaultRetryCondition(error: any, response?: Response): boolean {
    if (!response &&
        (error?.name === "TypeError" || error?.message?.includes("fetch"))) {
      return true;
    }
    if (response) {
      const status = response.status;
      return status >= 500 || status === 408 || status === 429 || status === 0;
    }
    return false;
  }
  \<close>
\<close>

definition defaultRetryCondition :: "js_error \<Rightarrow> response option \<Rightarrow> bool" where
  "defaultRetryCondition error resp =
     (if resp = None \<and>
         (error_name error = Some ''TypeError'' \<or>
          (case error_message error of None \<Rightarrow> False | Some m \<Rightarrow> str_includes m ''fetch''))
      then True
      else (case resp of
              Some r \<Rightarrow> status r \<ge> 500 \<or> status r = 408 \<or> status r = 429 \<or> status r = 0
            | None \<Rightarrow> False))"

section \<open>Configuration\<close>

text \<open>
  \<^verbatim>\<open>RetryConfig\<close> of \<^verbatim>\<open>src/types.ts\<close> has only optional fields; the interceptor keeps a
  \<^verbatim>\<open>Required<RetryConfig>\<close>. The two callbacks are user code whose effect lies outside
  the interceptor: a callback is represented by a name (\<open>None\<close> is the default
  \<^verbatim>\<open>() => {}\<close>) and every call of it is recorded in the trace of the state.
\<close>

record retry_config =
  delayTime :: int
  retryInterval :: int
  maxRetries :: int
  retryCondition :: "js_error \<Rightarrow> response option \<Rightarrow> bool"
  onRetry :: "nat option"
  onMaxRetriesExceeded :: "nat option"
  enableLogging :: bool

record retry_config_partial =
  opt_delayTime :: "int option"
  opt_retryInterval :: "int option"
  opt_maxRetries :: "int option"
  opt_retryCondition :: "(js_error \<Rightarrow> response option \<Rightarrow> bool) option"
  opt_onRetry :: "nat option"
  opt_onMaxRetriesExceeded :: "nat option"
  opt_enableLogging :: "bool option"

text \<open>\<^verbatim>\<open>a ?? b\<close>\<close>

definition nullish :: "'a option \<Rightarrow> 'a \<Rightarrow> 'a" where
  "nullish a b = (case a of None \<Rightarrow> b | Some v \<Rightarrow> v)"

definition no_options :: retry_config_partial where
  "no_options = \<lparr>opt_delayTime = None, opt_retryInterval = None, opt_maxRetries = None,
     opt_retryCondition = None, opt_onRetry = None, opt_onMaxRetriesExceeded = None,
     opt_enableLogging = None\<rparr>"

section \<open>The state of an interceptor\<close>

text \<open>
  A \<^verbatim>\<open>PendingRequest\<close> is a mutable object that the \<^verbatim>\<open>pendingRequests\<close> map and the
  snapshot of every running \<^verbatim>\<open>retryPendingRequests\<close> share by reference, so the objects
  live in a heap and the map holds addresses. The \<^verbatim>\<open>resolve\<close>/\<^verbatim>\<open>reject\<close> pair of an
  object is one of two closures (built by \<^verbatim>\<open>handleFailedRequest\<close> or by
  \<^verbatim>\<open>handleFailedXHRRequest\<close>) over the promise created with the object; the promise of
  the object at address \<open>a\<close> is \<open>promises s a\<close>.
\<close>

datatype caller = FetchCaller | XhrCaller

record pending_request =
  rid :: string
  url :: string
  options :: request_init
  retryCount :: int
  timestamp :: int
  caller :: caller

datatype promise = Pending | Fulfilled response | Rejected js_error

text \<open>
  The effects the interceptor has on its surroundings, newest first in the trace. The
  leading number of an event is the address of the request object it is about.
\<close>

datatype event =
    Resolve nat response
  | Reject nat js_error
  | OnRetry nat "nat option" js_error int string request_init
  | OnMaxRetriesExceeded nat "nat option" js_error string request_init
  | Fetch nat string request_init
  | PassThrough outcome
  | XhrOriginalOnError
  | XhrOriginalOnLoad

datatype log_part = Txt string | Num int | ErrArg js_error | CfgArg retry_config_partial

record interceptor =
  config :: retry_config
  pendingRequests :: "(string \<times> nat) list"
  heap :: "nat \<Rightarrow> pending_request"
  promises :: "nat \<Rightarrow> promise"
  next_addr :: nat
  isOnline :: bool
  isActive :: bool
  retryTimer :: bool
  intercepting :: bool
  listening :: bool
  sweeps :: "(nat \<times> nat list) list"
  trace :: "event list"
  console :: "log_part list list"

text \<open>
  \<open>pendingRequests\<close> is the \<^verbatim>\<open>Map<string, PendingRequest>\<close> in insertion order
  (\<open>AList.update\<close> is \<^verbatim>\<open>Map.set\<close>: it replaces in place or appends; \<open>AList.delete\<close> is
  \<^verbatim>\<open>Map.delete\<close>). \<open>sweeps\<close> holds the calls of \<^verbatim>\<open>retryPendingRequests\<close> that are
  suspended at their \<^verbatim>\<open>await\<close>: the request in flight and the rest of the snapshot.
  \<open>retryTimer\<close> tells whether the timeout of the retry loop is scheduled, \<open>intercepting\<close>
  whether \<^verbatim>\<open>window.fetch\<close> and \<^verbatim>\<open>window.XMLHttpRequest\<close> are the wrappers, \<open>listening\<close>
  whether the online/offline listeners are registered.
\<close>

definition default_request :: pending_request where
  "default_request = \<lparr>rid = [], url = [], options = \<lparr>http_method = None, req_body = None,
     headers = []\<rparr>, retryCount = 0, timestamp = 0, caller = FetchCaller\<rparr>"

text \<open>
  \<^verbatim>\<open>
  constructor(config: RetryConfig = {}) {
    this.config = {
      delayTime: config.delayTime ?? 1000,
      retryInterval: config.retryInterval ?? 5000,
      maxRetries: config.maxRetries ?? 3,
      retryCondition: config.retryCondition ?? this.defaultRetryCondition,
      onRetry: config.onRetry ?? (() => {}),
      onMaxRetriesExceeded: config.onMaxRetriesExceeded ?? (() => {}),
      enableLogging: config.enableLogging ?? false,
    };
  \<close>
  The second argument is \<^verbatim>\<open>navigator.onLine\<close> at construction.
\<close>

definition createApiInterceptor :: "retry_config_partial \<Rightarrow> bool \<Rightarrow> interceptor" where
  "createApiInterceptor c onLine =
     \<lparr>config = \<lparr>delayTime = nullish (opt_delayTime c) 1000,
                 retryInterval = nullish (opt_retryInterval c) 5000,
                 maxRetries = nullish (opt_maxRetries c) 3,
                 retryCondition = nullish (opt_retryCondition c) defaultRetryCondition,
                 onRetry = opt_onRetry c,
                 onMaxRetriesExceeded = opt_onMaxRetriesExceeded c,
                 enableLogging = nullish (opt_enableLogging c) False\<rparr>,
      pendingRequests = [],
      heap = (\<lambda>a. default_request),
      promises = (\<lambda>a. Pending),
      next_addr = 0,
      isOnline = onLine,
      isActive = False,
      retryTimer = False,
      intercepting = False,
      listening = False,
      sweeps = [],
      trace = [],
      console = []\<rparr>"

section \<open>Logging, callbacks and continuations\<close>

text \<open>
  \<^verbatim>\<open>
  private log(message: string, ...args: any[]): void {
    if (this.config.enableLogging) {
      console.log(`[Universal API Interceptor] ${message}`, ...args);
    }
  }
  \<close>
\<close>

definition log :: "log_part list \<Rightarrow> interceptor \<Rightarrow> interceptor" where
  "log msg s =
     (if enableLogging (config s)
      then s\<lparr>console := (Txt ''[Universal API Interceptor] '' # msg) # console s\<rparr>
      else s)"

definition emit :: "event \<Rightarrow> interceptor \<Rightarrow> interceptor" where
  "emit e s = s\<lparr>trace := e # trace s\<rparr>"

text \<open>Settling a promise has an effect only while the promise is pending.\<close>

definition promise_settle :: "nat \<Rightarrow> promise \<Rightarrow> interceptor \<Rightarrow> interceptor" where
  "promise_settle a v s =
     (if promises s a = Pending then s\<lparr>promises := (promises s)(a := v)\<rparr> else s)"

text \<open>
  \<^verbatim>\<open>request.resolve(response)\<close>. For a request stored by \<^verbatim>\<open>handleFailedRequest\<close> this
  is the \<^verbatim>\<open>resolve\<close> of its promise. For one stored by \<^verbatim>\<open>handleFailedXHRRequest\<close> it
  starts \<^verbatim>\<open>response.text()\<close>, and the promise is resolved only in a later callback, which
  is not part of this model.
\<close>

definition request_resolve :: "nat \<Rightarrow> response \<Rightarrow> interceptor \<Rightarrow> interceptor" where
  "request_resolve a r s =
     (let s1 = emit (Resolve a r) s
      in case caller (heap s a) of
           FetchCaller \<Rightarrow> promise_settle a (Fulfilled r) s1
         | XhrCaller \<Rightarrow> s1)"

text \<open>
  \<^verbatim>\<open>
  reject: (error) => {
    // Only reject if this isn't a cleared request
    if (error.message !== "INTERCEPTOR_CLEARED") {
      reject(error);
    }
    // Silently handle cleared requests
  },
  \<close>
  The same closure in both \<^verbatim>\<open>handleFailedRequest\<close> and \<^verbatim>\<open>handleFailedXHRRequest\<close>. Reading
  \<^verbatim>\<open>error.message\<close> of \<^verbatim>\<open>null\<close> throws a \<^verbatim>\<open>TypeError\<close>: the second component of the
  result tells whether the call threw.
\<close>

definition request_reject :: "nat \<Rightarrow> js_error \<Rightarrow> interceptor \<Rightarrow> interceptor \<times> bool" where
  "request_reject a e s =
     (let s1 = emit (Reject a e) s
      in case e of
           ErrNull \<Rightarrow> (s1, True)
         | ErrObj n m \<Rightarrow>
             (if m \<noteq> Some ''INTERCEPTOR_CLEARED'' then promise_settle a (Rejected e) s1 else s1,
              False))"

section \<open>Storing a failed request\<close>

definition digit36 :: "nat \<Rightarrow> char" where
  "digit36 d = ''0123456789abcdefghijklmnopqrstuvwxyz'' ! d"

fun nat36 :: "nat \<Rightarrow> string" where
  "nat36 n = (if n < 36 then [digit36 n] else nat36 (n div 36) @ [digit36 (n mod 36)])"

declare nat36.simps [simp del]

definition toString36 :: "int \<Rightarrow> string" where
  "toString36 i = (if i < 0 then CHR ''-'' # nat36 (nat (- i)) else nat36 (nat i))"

text \<open>
  \<^verbatim>\<open>Math.random().toString(36).substring(2) + Date.now().toString(36)\<close>; the random part is
  supplied by the environment.
\<close>

definition generateRequestId :: "string \<Rightarrow> int \<Rightarrow> string" where
  "generateRequestId rnd now = rnd @ toString36 now"

text \<open>
  The part \<^verbatim>\<open>handleFailedRequest\<close> and \<^verbatim>\<open>handleFailedXHRRequest\<close> share: a new request
  object with \<^verbatim>\<open>retryCount: 0\<close> and \<^verbatim>\<open>timestamp: Date.now()\<close> and its pending promise,
  stored with \<^verbatim>\<open>this.pendingRequests.set(pendingRequest.id, pendingRequest)\<close>.
\<close>

definition store_request ::
    "caller \<Rightarrow> string \<Rightarrow> int \<Rightarrow> string \<Rightarrow> request_init \<Rightarrow> interceptor \<Rightarrow> interceptor" where
  "store_request c rnd now u opts s =
     (let a = next_addr s;
          r = \<lparr>rid = generateRequestId rnd now, url = u, options = opts, retryCount = 0,
               timestamp = now, caller = c\<rparr>
      in s\<lparr>heap := (heap s)(a := r),
            promises := (promises s)(a := Pending),
            next_addr := Suc a,
            pendingRequests := AList.update (rid r) a (pendingRequests s)\<rparr>)"

definition handleFailedRequest ::
    "string \<Rightarrow> int \<Rightarrow> string \<Rightarrow> request_init \<Rightarrow> interceptor \<Rightarrow> interceptor" where
  "handleFailedRequest rnd now u opts s =
     log [Txt ''Stored request '', Txt (generateRequestId rnd now), Txt '' for retry. URL: '', Txt u]
       (store_request FetchCaller rnd now u opts s)"

definition handleFailedXHRRequest ::
    "string \<Rightarrow> int \<Rightarrow> string \<Rightarrow> request_init \<Rightarrow> interceptor \<Rightarrow> interceptor" where
  "handleFailedXHRRequest rnd now u opts s =
     log [Txt ''Stored XHR request '', Txt (generateRequestId rnd now), Txt '' for retry'']
       (store_request XhrCaller rnd now u opts s)"

section \<open>The wrappers around fetch and XMLHttpRequest\<close>

text \<open>
  The wrapper installed as \<^verbatim>\<open>window.fetch\<close>, given what the original fetch produced. For
  a request that it stores, the promise the wrapper returns is settled when the promise of
  \<^verbatim>\<open>handleFailedRequest\<close> is; a request that is not stored is answered at once with the
  original outcome, recorded as \<open>PassThrough\<close>.
  \<^verbatim>\<open>
  try {
    const response = await originalFetch(input, init);
    if (!response.ok && self.config.retryCondition(null, response)) {
      return self.handleFailedRequest(url, options, null, response);
    }
    return response;
  } catch (error) {
    if (self.config.retryCondition(error)) {
      try {
        return await self.handleFailedRequest(url, options, error);
      } catch (retryError: any) {
        if (retryError.message === "INTERCEPTOR_CLEARED") {
          // Return a resolved promise with a synthetic response for cleared requests
          return new Response(null, { status: 499, statusText: "Request Cleared" });
        } else if (retryError.name === "MaxRetriesExceeded") {
          throw new Error(`Request failed after ${self.config.maxRetries} retry attempts`);
        }
        throw retryError;
      }
    }
    throw error;
  }
  \<close>
  The branch of the inner \<^verbatim>\<open>catch\<close> for \<^verbatim>\<open>INTERCEPTOR_CLEARED\<close> is never taken:
  \<open>request_reject\<close> drops every error with that message, so the promise is never
  rejected with one. The errors the interceptor makes itself have the name \<^verbatim>\<open>Error\<close>.
\<close>

definition interceptedFetch ::
    "string \<Rightarrow> int \<Rightarrow> string \<Rightarrow> request_init \<Rightarrow> outcome \<Rightarrow> interceptor \<Rightarrow> interceptor" where
  "interceptedFetch rnd now u init out s =
     (case out of
        Returned r \<Rightarrow>
          if \<not> ok r \<and> retryCondition (config s) ErrNull (Some r)
          then handleFailedRequest rnd now u init s
          else emit (PassThrough out) s
      | Threw e \<Rightarrow>
          if retryCondition (config s) e None
          then handleFailedRequest rnd now u init s
          else emit (PassThrough out) s)"

definition extractXHRHeaders :: "(string \<times> string) list" where
  "extractXHRHeaders = [(''Content-Type'', ''application/json'')]"

text \<open>
  \<^verbatim>\<open>
  xhr.onerror = function (event) {
    if (self.config.retryCondition({ name: "NetworkError" })) {
      const options = { method: requestMethod, body: requestData,
                        headers: self.extractXHRHeaders(xhr) };
      self.handleFailedXHRRequest(requestUrl, options, xhr);
      return;
    }
    if (originalOnError) originalOnError.call(xhr, event);
  };
  \<close>
\<close>

definition xhr_onerror ::
    "string \<Rightarrow> int \<Rightarrow> string \<Rightarrow> string \<Rightarrow> string option \<Rightarrow> interceptor \<Rightarrow> interceptor" where
  "xhr_onerror rnd now requestMethod requestUrl requestData s =
     (if retryCondition (config s) (ErrObj (Some ''NetworkError'') None) None
      then handleFailedXHRRequest rnd now requestUrl
             \<lparr>http_method = Some requestMethod, req_body = requestData,
              headers = extractXHRHeaders\<rparr> s
      else emit XhrOriginalOnError s)"

text \<open>
  \<^verbatim>\<open>
  xhr.onload = function (event) {
    if (xhr.status >= 400 &&
        self.config.retryCondition(null, { status: xhr.status } as Response)) {
      ... self.handleFailedXHRRequest(requestUrl, options, xhr); return;
    }
    if (originalOnLoad) originalOnLoad.call(xhr, event);
  };
  \<close>
\<close>

definition xhr_onload ::
    "string \<Rightarrow> int \<Rightarrow> string \<Rightarrow> string \<Rightarrow> string option \<Rightarrow> int \<Rightarrow> interceptor \<Rightarrow> interceptor" where
  "xhr_onload rnd now requestMethod requestUrl requestData xhrStatus s =
     (if xhrStatus \<ge> 400 \<and>
         retryCondition (config s) ErrNull (Some \<lparr>status = xhrStatus, ok = False, body = []\<rparr>)
      then handleFailedXHRRequest rnd now requestUrl
             \<lparr>http_method = Some requestMethod, req_body = requestData,
              headers = extractXHRHeaders\<rparr> s
      else emit XhrOriginalOnLoad s)"

section \<open>The retry sweep\<close>

text \<open>
  \<^verbatim>\<open>retryPendingRequests\<close> is an \<^verbatim>\<open>async\<close> function: it runs until it awaits the fetch of
  the first request that is due, and goes on when that fetch has settled. All calls of
  \<^verbatim>\<open>Date.now()\<close> within one such uninterrupted run are given the same reading \<open>now\<close>,
  supplied by the environment. The callbacks \<^verbatim>\<open>onRetry\<close>, \<^verbatim>\<open>onMaxRetriesExceeded\<close> and
  \<^verbatim>\<open>retryCondition\<close> are taken not to throw and not to call back into the interceptor.

  The attempt (the body of \<^verbatim>\<open>try\<close> down to the call of fetch):
  \<^verbatim>\<open>
  request.retryCount++;
  request.timestamp = Date.now();
  this.config.onRetry(null, request.retryCount, { url: request.url, options: request.options });
  this.log(`Retrying request ${request.id} (attempt ${request.retryCount}/${this.config.maxRetries})`);
  const response = await this.originalMethods.fetch(request.url, request.options);
  \<close>
\<close>

definition dispatch :: "int \<Rightarrow> nat \<Rightarrow> interceptor \<Rightarrow> interceptor" where
  "dispatch now a s =
     (let r = (heap s a)\<lparr>retryCount := retryCount (heap s a) + 1, timestamp := now\<rparr>;
          s1 = s\<lparr>heap := (heap s)(a := r)\<rparr>;
          s2 = emit (OnRetry a (onRetry (config s1)) ErrNull (retryCount r) (url r) (options r)) s1;
          s3 = log [Txt ''Retrying request '', Txt (rid r), Txt '' (attempt '', Num (retryCount r),
                    Txt ''/'', Num (maxRetries (config s2)), Txt '')''] s2
      in emit (Fetch a (url r) (options r)) s3)"

text \<open>
  The loop over the snapshot up to the next \<^verbatim>\<open>await\<close>:
  \<^verbatim>\<open>
  for (const request of requestsToRetry) {
    const timeSinceLastAttempt = Date.now() - request.timestamp;
    if (timeSinceLastAttempt < this.config.delayTime) {
      continue;
    }
    try { ... await this.originalMethods.fetch(...)
  \<close>
  The result is the state and, when a fetch is awaited, the request in flight with the
  rest of the snapshot.
\<close>

fun sweep_loop :: "int \<Rightarrow> nat list \<Rightarrow> interceptor \<Rightarrow> interceptor \<times> (nat \<times> nat list) option" where
  "sweep_loop now [] s = (s, None)"
| "sweep_loop now (a # rest) s =
     (if now - timestamp (heap s a) < delayTime (config s)
      then sweep_loop now rest s
      else (dispatch now a s, Some (a, rest)))"

definition suspend :: "interceptor \<times> (nat \<times> nat list) option \<Rightarrow> interceptor" where
  "suspend r = (case snd r of None \<Rightarrow> fst r | Some t \<Rightarrow> (fst r)\<lparr>sweeps := sweeps (fst r) @ [t]\<rparr>)"

text \<open>
  The call \<^verbatim>\<open>this.retryPendingRequests()\<close>, with
  \<^verbatim>\<open>const requestsToRetry = Array.from(this.pendingRequests.values())\<close>, up to its first
  \<^verbatim>\<open>await\<close>.
\<close>

definition retryPendingRequests :: "int \<Rightarrow> interceptor \<Rightarrow> interceptor" where
  "retryPendingRequests now s = suspend (sweep_loop now (map snd (pendingRequests s)) s)"

text \<open>
  What the sweep does with the request in flight once its fetch has settled:
  \<^verbatim>\<open>
    if (response.ok || !this.config.retryCondition(null, response)) {
      this.pendingRequests.delete(request.id);
      request.resolve(response);
      this.log(`Request ${request.id} succeeded on retry ${request.retryCount}`);
    } else if (request.retryCount >= this.config.maxRetries) {
      this.pendingRequests.delete(request.id);
      this.config.onMaxRetriesExceeded(null, { url: request.url, options: request.options });
      request.reject(new Error(`Max retries exceeded for ${request.url}`));
      this.log(`Request ${request.id} failed after ${request.retryCount} retries`);
    }
  } catch (error: any) {
    if (request.retryCount >= this.config.maxRetries) {
      this.pendingRequests.delete(request.id);
      this.config.onMaxRetriesExceeded(error, { url: request.url, options: request.options });
      request.reject(error);
      this.log(`Request ${request.id} failed after ${request.retryCount} retries:`, error);
    } else if (!this.config.retryCondition(error)) {
      this.pendingRequests.delete(request.id);
      request.reject(error);
      this.log(`Request ${request.id} failed with non-retryable error:`, error);
    }
  }
  \<close>
  The second component tells whether \<^verbatim>\<open>request.reject\<close> threw inside the \<^verbatim>\<open>catch\<close> block,
  which ends the sweep.
\<close>

definition remove_request :: "nat \<Rightarrow> interceptor \<Rightarrow> interceptor" where
  "remove_request a s = s\<lparr>pendingRequests := AList.delete (rid (heap s a)) (pendingRequests s)\<rparr>"

definition max_retries_error :: "pending_request \<Rightarrow> js_error" where
  "max_retries_error r = ErrObj (Some ''Error'') (Some (''Max retries exceeded for '' @ url r))"

definition handle_outcome :: "nat \<Rightarrow> outcome \<Rightarrow> interceptor \<Rightarrow> interceptor \<times> bool" where
  "handle_outcome a out s =
     (let r = heap s a in
      case out of
        Returned resp \<Rightarrow>
          if ok resp \<or> \<not> retryCondition (config s) ErrNull (Some resp) then
            (log [Txt ''Request '', Txt (rid r), Txt '' succeeded on retry '', Num (retryCount r)]
               (request_resolve a resp (remove_request a s)), False)
          else if retryCount r \<ge> maxRetries (config s) then
            (log [Txt ''Request '', Txt (rid r), Txt '' failed after '', Num (retryCount r),
                  Txt '' retries'']
               (fst (request_reject a (max_retries_error r)
                  (emit (OnMaxRetriesExceeded a (onMaxRetriesExceeded (config s)) ErrNull
                           (url r) (options r))
                     (remove_request a s)))), False)
          else (s, False)
      | Threw e \<Rightarrow>
          if retryCount r \<ge> maxRetries (config s) then
            (let res = request_reject a e
                         (emit (OnMaxRetriesExceeded a (onMaxRetriesExceeded (config s)) e
                                  (url r) (options r))
                            (remove_request a s))
             in if snd res then res
                else (log [Txt ''Request '', Txt (rid r), Txt '' failed after '',
                           Num (retryCount r), Txt '' retries:'', ErrArg e] (fst res), False))
          else if \<not> retryCondition (config s) e None then
            (let res = request_reject a e (remove_request a s)
             in if snd res then res
                else (log [Txt ''Request '', Txt (rid r), Txt '' failed with non-retryable error:'',
                           ErrArg e] (fst res), False))
          else (s, False))"

text \<open>
  The fetch awaited by the \<open>i\<close>-th suspended sweep settles with \<open>out\<close>: the sweep handles
  the outcome and goes on with the rest of its snapshot.
\<close>

definition fetch_settled :: "int \<Rightarrow> nat \<Rightarrow> outcome \<Rightarrow> interceptor \<Rightarrow> interceptor" where
  "fetch_settled now i out s =
     (if i < length (sweeps s) then
        (let t = sweeps s ! i;
             s0 = s\<lparr>sweeps := take i (sweeps s) @ drop (Suc i) (sweeps s)\<rparr>;
             res = handle_outcome (fst t) out s0
         in if snd res then fst res else suspend (sweep_loop now (snd t) (fst res)))
      else s)"

section \<open>The public operations\<close>

definition getPendingRequestsCount :: "interceptor \<Rightarrow> nat" where
  "getPendingRequestsCount s = length (pendingRequests s)"

definition cleared_error :: js_error where
  "cleared_error = ErrObj (Some ''Error'') (Some ''INTERCEPTOR_CLEARED'')"

text \<open>
  \<^verbatim>\<open>
  public clearPendingRequests(): void {
    this.pendingRequests.forEach((request) => {
      // Silently reject with a special flag to indicate this was intentional
      request.reject(new Error("INTERCEPTOR_CLEARED"));
    });
    this.pendingRequests.clear();
    this.log("Cleared all pending requests");
  }
  \<close>
\<close>

definition clearPendingRequests :: "interceptor \<Rightarrow> interceptor" where
  "clearPendingRequests s =
     log [Txt ''Cleared all pending requests'']
       ((fold (\<lambda>a s'. fst (request_reject a cleared_error s')) (map snd (pendingRequests s)) s)
          \<lparr>pendingRequests := []\<rparr>)"

text \<open>
  \<^verbatim>\<open>
  public updateConfig(newConfig: Partial<RetryConfig>): void {
    this.config = { ...this.config, ...newConfig };
    this.log("Configuration updated", newConfig);
  }
  \<close>
  A field of \<open>newConfig\<close> that is \<open>None\<close> is absent from the object.
\<close>

definition merge_config :: "retry_config \<Rightarrow> retry_config_partial \<Rightarrow> retry_config" where
  "merge_config c n =
     \<lparr>delayTime = nullish (opt_delayTime n) (delayTime c),
      retryInterval = nullish (opt_retryInterval n) (retryInterval c),
      maxRetries = nullish (opt_maxRetries n) (maxRetries c),
      retryCondition = nullish (opt_retryCondition n) (retryCondition c),
      onRetry = (case opt_onRetry n of None \<Rightarrow> onRetry c | Some f \<Rightarrow> Some f),
      onMaxRetriesExceeded =
        (case opt_onMaxRetriesExceeded n of None \<Rightarrow> onMaxRetriesExceeded c | Some f \<Rightarrow> Some f),
      enableLogging = nullish (opt_enableLogging n) (enableLogging c)\<rparr>"

definition updateConfig :: "retry_config_partial \<Rightarrow> interceptor \<Rightarrow> interceptor" where
  "updateConfig newConfig s =
     log [Txt ''Configuration updated'', CfgArg newConfig]
       (s\<lparr>config := merge_config (config s) newConfig\<rparr>)"

text \<open>
  \<^verbatim>\<open>
  const retryLoop = () => {
    if (this.isOnline && this.pendingRequests.size > 0) {
      this.retryPendingRequests();
    }
    this.retryTimer = window.setTimeout(retryLoop, this.config.retryInterval);
  };
  \<close>
\<close>

definition retryLoop :: "int \<Rightarrow> interceptor \<Rightarrow> interceptor" where
  "retryLoop now s =
     (let s1 = (if isOnline s \<and> length (pendingRequests s) > 0
                then retryPendingRequests now s else s)
      in s1\<lparr>retryTimer := True\<rparr>)"

text \<open>
  \<^verbatim>\<open>
  public start(): void {
    if (this.isActive) { this.log("Interceptor already active"); return; }
    this.interceptFetch();
    this.interceptXMLHttpRequest();
    this.setupNetworkListeners();
    this.startRetryLoop();
    this.isActive = true;
    this.log("Universal API Interceptor started");
  }
  \<close>
\<close>

definition start :: "int \<Rightarrow> interceptor \<Rightarrow> interceptor" where
  "start now s =
     (if isActive s then log [Txt ''Interceptor already active''] s
      else log [Txt ''Universal API Interceptor started'']
             ((retryLoop now (s\<lparr>intercepting := True, listening := True\<rparr>))\<lparr>isActive := True\<rparr>))"

text \<open>
  \<^verbatim>\<open>
  public stop(): void {
    if (!this.isActive) return;
    window.fetch = this.originalMethods.fetch;
    window.XMLHttpRequest = this.originalMethods.XMLHttpRequest;
    if (this.retryTimer) { clearTimeout(this.retryTimer); }
    window.removeEventListener("online", this.handleOnline);
    window.removeEventListener("offline", this.handleOffline);
    this.clearPendingRequests();
    this.isActive = false;
    this.log("Universal API Interceptor stopped");
  }
  \<close>
\<close>

definition stop :: "interceptor \<Rightarrow> interceptor" where
  "stop s =
     (if \<not> isActive s then s
      else log [Txt ''Universal API Interceptor stopped'']
             ((clearPendingRequests
                 (s\<lparr>intercepting := False, retryTimer := False, listening := False\<rparr>))
                \<lparr>isActive := False\<rparr>))"

definition handleOnline :: "int \<Rightarrow> interceptor \<Rightarrow> interceptor" where
  "handleOnline now s =
     retryPendingRequests now
       ((log [Txt ''Network back online - retrying pending requests''] s)\<lparr>isOnline := True\<rparr>)"

definition handleOffline :: "interceptor \<Rightarrow> interceptor" where
  "handleOffline s =
     (log [Txt ''Network went offline - storing requests for later''] s)\<lparr>isOnline := False\<rparr>"

record interceptor_status =
  st_isActive :: bool
  st_isOnline :: bool
  st_pendingRequests :: nat

definition getStatus :: "interceptor \<Rightarrow> interceptor_status" where
  "getStatus s = \<lparr>st_isActive = isActive s, st_isOnline = isOnline s,
                  st_pendingRequests = length (pendingRequests s)\<rparr>"

section \<open>Runs of an interceptor\<close>

text \<open>
  What can happen to an interceptor, one uninterrupted run of its code at a time: a call
  of its public interface, a call of one of the wrappers (with the outcome of the original
  request), the timeout of the retry loop, an online or offline event, and the settling of
  the fetch that a suspended sweep awaits. A timeout that was cleared does not fire and a
  listener that was removed is not called.
\<close>

datatype action =
    Start int
  | Stop
  | Clear
  | UpdateConfig retry_config_partial
  | Timer int
  | Online int
  | Offline
  | FetchSettled int nat outcome
  | CallFetch string int string request_init outcome
  | XhrError string int string string "string option"
  | XhrLoad string int string string "string option" int

fun exec :: "action \<Rightarrow> interceptor \<Rightarrow> interceptor" where
  "exec (Start now) s = start now s"
| "exec Stop s = stop s"
| "exec Clear s = clearPendingRequests s"
| "exec (UpdateConfig c) s = updateConfig c s"
| "exec (Timer now) s = (if retryTimer s then retryLoop now s else s)"
| "exec (Online now) s = (if listening s then handleOnline now s else s)"
| "exec Offline s = (if listening s then handleOffline s else s)"
| "exec (FetchSettled now i out) s = fetch_settled now i out s"
| "exec (CallFetch rnd now u init out) s = interceptedFetch rnd now u init out s"
| "exec (XhrError rnd now m u d) s = xhr_onerror rnd now m u d s"
| "exec (XhrLoad rnd now m u d st) s = xhr_onload rnd now m u d st s"

fun run :: "action list \<Rightarrow> interceptor \<Rightarrow> interceptor" where
  "run [] s = s"
| "run (x # xs) s = run xs (exec x s)"

section \<open>Notions used in the statements\<close>

text \<open>A request is due at a reading of the clock when the sweep would not skip it.\<close>

definition due :: "int \<Rightarrow> interceptor \<Rightarrow> nat \<Rightarrow> bool" where
  "due now s a = (\<not> now - timestamp (heap s a) < delayTime (config s))"

text \<open>
  Events about the request at an address: \<open>settles\<close> are the calls of its two
  continuations, \<open>attempts\<close> what a sweep does when it dispatches it, \<open>concludes\<close> the
  calls of its continuations and of \<^verbatim>\<open>onMaxRetriesExceeded\<close>.
\<close>

fun settles :: "nat \<Rightarrow> event \<Rightarrow> bool" where
  "settles a (Resolve b r) = (a = b)"
| "settles a (Reject b e) = (a = b)"
| "settles a ev = False"

fun attempts :: "nat \<Rightarrow> event \<Rightarrow> bool" where
  "attempts a (OnRetry b f e n u opts) = (a = b)"
| "attempts a (Fetch b u opts) = (a = b)"
| "attempts a ev = False"

fun concludes :: "nat \<Rightarrow> event \<Rightarrow> bool" where
  "concludes a (Resolve b r) = (a = b)"
| "concludes a (Reject b e) = (a = b)"
| "concludes a (OnMaxRetriesExceeded b f e u opts) = (a = b)"
| "concludes a ev = False"

text \<open>Every key of the map is the id of the request stored under it, and that request exists.\<close>

definition registry_ok :: "interceptor \<Rightarrow> bool" where
  "registry_ok s = (\<forall>(k, b) \<in> set (pendingRequests s). rid (heap s b) = k \<and> b < next_addr s)"

text \<open>
  The requests that are in the map, and how many times a continuation of the request at an
  address has been called so far.
\<close>

definition queued :: "interceptor \<Rightarrow> nat set" where
  "queued s = snd ` set (pendingRequests s)"

definition fired :: "nat \<Rightarrow> interceptor \<Rightarrow> nat" where
  "fired a s = length (filter (settles a) (trace s))"

text \<open>
  A run is serial when no sweep is started and nothing is cleared while a sweep awaits its
  fetch, and no request is stored under an id that is already a key of the map.
  \<open>starts_sweep\<close> tells whether an action calls \<^verbatim>\<open>retryPendingRequests\<close>, \<open>clears\<close>
  whether it calls \<^verbatim>\<open>clearPendingRequests\<close>; an action has stored a request when it has
  moved \<open>next_addr\<close>, and the request is then the one at the old \<open>next_addr\<close>.
\<close>

fun starts_sweep :: "action \<Rightarrow> interceptor \<Rightarrow> bool" where
  "starts_sweep (Start now) s = (\<not> isActive s \<and> isOnline s \<and> pendingRequests s \<noteq> [])"
| "starts_sweep (Timer now) s = (retryTimer s \<and> isOnline s \<and> pendingRequests s \<noteq> [])"
| "starts_sweep (Online now) s = listening s"
| "starts_sweep x s = False"

fun clears :: "action \<Rightarrow> interceptor \<Rightarrow> bool" where
  "clears Stop s = isActive s"
| "clears Clear s = True"
| "clears x s = False"

definition admissible :: "action \<Rightarrow> interceptor \<Rightarrow> bool" where
  "admissible x s =
     ((starts_sweep x s \<or> clears x s \<longrightarrow> sweeps s = []) \<and>
      (next_addr (exec x s) \<noteq> next_addr s \<longrightarrow>
         rid (heap (exec x s) (next_addr s)) \<notin> fst ` set (pendingRequests s)))"

fun serial :: "action list \<Rightarrow> interceptor \<Rightarrow> bool" where
  "serial [] s = True"
| "serial (x # xs) s = (admissible x s \<and> serial xs (exec x s))"




text \<open>
  The invariants of serial runs. \<open>well_formed\<close>: the map is injective on keys and on
  requests, at most one sweep is suspended, and the request in flight and the rest of the
  snapshot of that sweep are distinct requests of the map. \<open>settled_once\<close>: a continuation
  has been called once for every request that was stored and is no longer in the map, and
  never for any other.

  The invariant of runs whose sweeps take turns and that keep the ceiling,
  \<open>within_ceiling\<close>: the \<^verbatim>\<open>retryCount\<close> of a request in the map does not exceed
  \<^verbatim>\<open>maxRetries\<close>, and has reached it only if the request is in flight.

  The outcome of a dispatch is a retryable failure when it is a response that is not
  \<^verbatim>\<open>ok\<close> and that \<^verbatim>\<open>retryCondition\<close> accepts, or an exception that \<^verbatim>\<open>retryCondition\<close>
  accepts.
\<close>

definition well_formed :: "interceptor \<Rightarrow> bool" where
  "well_formed s =
     (registry_ok s \<and> distinct (map fst (pendingRequests s)) \<and>
      distinct (map snd (pendingRequests s)) \<and> length (sweeps s) \<le> 1 \<and>
      (\<forall>(c, rest) \<in> set (sweeps s).
          c \<in> queued s \<and> set rest \<subseteq> queued s \<and> c \<notin> set rest \<and> distinct rest))"

definition settled_once :: "interceptor \<Rightarrow> bool" where
  "settled_once s = (\<forall>a. fired a s = (if a < next_addr s \<and> a \<notin> queued s then 1 else 0))"

definition within_ceiling :: "interceptor \<Rightarrow> bool" where
  "within_ceiling s =
     (registry_ok s \<and> distinct (map snd (pendingRequests s)) \<and> length (sweeps s) \<le> 1 \<and>
      (\<forall>(c, rest) \<in> set (sweeps s). c \<notin> set rest \<and> distinct rest) \<and>
      1 \<le> maxRetries (config s) \<and>
      (\<forall>a \<in> queued s.
          retryCount (heap s a) \<le> maxRetries (config s) \<and>
          (retryCount (heap s a) = maxRetries (config s) \<longrightarrow> a \<in> fst ` set (sweeps s))))"


text \<open>
  What can be observed of an interceptor apart from its logging: the state without the
  console output and the \<^verbatim>\<open>enableLogging\<close> flag. Two actions are the same apart from
  logging when they differ at most in the \<^verbatim>\<open>enableLogging\<close> field given to
  \<^verbatim>\<open>updateConfig\<close>.
\<close>

definition observable :: "interceptor \<Rightarrow> interceptor" where
  "observable s = s\<lparr>console := [], config := (config s)\<lparr>enableLogging := False\<rparr>\<rparr>"

fun mask_logging :: "action \<Rightarrow> action" where
  "mask_logging (UpdateConfig c) = UpdateConfig (c\<lparr>opt_enableLogging := None\<rparr>)"
| "mask_logging x = x"

section \<open>Example runs\<close>

definition api_request :: request_init where
  "api_request = \<lparr>http_method = Some ''GET'', req_body = None, headers = []\<rparr>"

definition unavailable :: response where
  "unavailable = \<lparr>status = 503, ok = False, body = ''Service Unavailable''\<rparr>"

definition not_found :: response where
  "not_found = \<lparr>status = 404, ok = False, body = ''Not Found''\<rparr>"

definition fine :: response where
  "fine = \<lparr>status = 200, ok = True, body = ''{}''\<rparr>"

definition aborted :: js_error where
  "aborted = ErrObj (Some ''AbortError'') (Some ''The user aborted a request.'')"

definition failed_to_fetch :: js_error where
  "failed_to_fetch = ErrObj (Some ''TypeError'') (Some ''Failed to fetch'')"

text \<open>
  An interceptor with the default options is started while online; a fetch through the
  wrapper answers 503 at time 0 and is stored for retry.
\<close>

definition one_queued :: interceptor where
  "one_queued = run [Start 0, CallFetch ''k3j'' 0 ''/api'' api_request (Returned unavailable)]
                  (createApiInterceptor no_options True)"

text \<open>The timeout of the retry loop fires at time 5000 and the sweep dispatches the request.\<close>

definition in_flight :: interceptor where
  "in_flight = exec (Timer 5000) one_queued"

text \<open>The same with \<^verbatim>\<open>maxRetries\<close> lowered to 1 before the sweep.\<close>

definition last_attempt :: interceptor where
  "last_attempt = run [UpdateConfig (no_options\<lparr>opt_maxRetries := Some 1\<rparr>), Timer 5000] one_queued"

text \<open>
  After the dispatch of \<open>in_flight\<close> was answered with 503 again, the request is queued with
  \<^verbatim>\<open>retryCount\<close> 1; then \<^verbatim>\<open>updateConfig({ maxRetries: 1 })\<close> is called.
\<close>

definition one_failed :: interceptor where
  "one_failed = exec (FetchSettled 5100 0 (Returned unavailable)) in_flight"

definition lowered :: interceptor where
  "lowered = exec (UpdateConfig (no_options\<lparr>opt_maxRetries := Some 1\<rparr>)) one_failed"

text \<open>The same interceptor as in \<open>one_queued\<close>, created with logging enabled.\<close>

definition logging_interceptor :: interceptor where
  "logging_interceptor = createApiInterceptor (no_options\<lparr>opt_enableLogging := Some True\<rparr>) True"

definition one_retry :: "action list" where
  "one_retry = [Start 0, CallFetch ''k3j'' 0 ''/api'' api_request (Returned unavailable),
                Timer 5000, FetchSettled 5100 0 (Returned fine)]"



section \<open>The default retry condition decides by status or by the kind of error\<close>

lemma default_condition_status:
  "defaultRetryCondition e (Some r) =
     (status r \<ge> 500 \<or> status r = 408 \<or> status r = 429 \<or> status r = 0)"
  by (simp add: defaultRetryCondition_def)

lemma default_condition_no_response:
  "defaultRetryCondition e None =
     (error_name e = Some ''TypeError'' \<or> (\<exists>m. error_message e = Some m \<and> str_includes m ''fetch''))"
  by (simp add: defaultRetryCondition_def split: option.splits)

lemma default_is_configured:
  "retryCondition (config (createApiInterceptor no_options onLine)) = defaultRetryCondition"
  by (simp add: createApiInterceptor_def no_options_def nullish_def)



text \<open>
  Claim C10. Without a response the default retry condition is false for every error
  whose name is not \<^verbatim>\<open>TypeError\<close> and whose message, if it has one, does not include
  \<^verbatim>\<open>fetch\<close>. The value \<^verbatim>\<open>{ name: "NetworkError" }\<close> that the \<^verbatim>\<open>onerror\<close> handler of the
  wrapped XMLHttpRequest passes is such an error, so under the default condition the
  handler stores nothing for retry and hands the event to the page's own handler.
\<close>

theorem xhr_network_error_not_retried:
  "(error_name e \<noteq> Some ''TypeError'' \<and>
    (\<forall>m. error_message e = Some m \<longrightarrow> \<not> str_includes m ''fetch'')
      \<longrightarrow> \<not> defaultRetryCondition e None) \<and>
   \<not> defaultRetryCondition (ErrObj (Some ''NetworkError'') None) None \<and>
   (retryCondition (config s) = defaultRetryCondition \<longrightarrow>
      pendingRequests (xhr_onerror rnd now m' u d s) = pendingRequests s \<and>
      trace (xhr_onerror rnd now m' u d s) = XhrOriginalOnError # trace s)"
  by (auto simp: default_condition_no_response xhr_onerror_def emit_def)

theorem xhr_network_error_not_retried_witness:
  "\<not> defaultRetryCondition (ErrObj (Some ''AbortError'') (Some ''The user aborted a request.'')) None \<and>
   pendingRequests (xhr_onerror ''k3j'' 1000 ''GET'' ''/api'' None (createApiInterceptor no_options True)) = [] \<and>
   trace (xhr_onerror ''k3j'' 1000 ''GET'' ''/api'' None (createApiInterceptor no_options True))
     = [XhrOriginalOnError]"
proof -
  have c: "retryCondition (config (createApiInterceptor no_options True)) = defaultRetryCondition"
    by (rule default_is_configured)
  have e: "error_name (ErrObj (Some ''AbortError'') (Some ''The user aborted a request.''))
             \<noteq> Some ''TypeError'' \<and>
           (\<forall>m. error_message (ErrObj (Some ''AbortError'') (Some ''The user aborted a request.''))
                  = Some m \<longrightarrow> \<not> str_includes m ''fetch'')"
    by simp
  have s: "pendingRequests (createApiInterceptor no_options True) = [] \<and>
           trace (createApiInterceptor no_options True) = []"
    by (simp add: createApiInterceptor_def)
  show ?thesis
    using xhr_network_error_not_retried
            [of "ErrObj (Some ''AbortError'') (Some ''The user aborted a request.'')"
                "createApiInterceptor no_options True" "''k3j''" 1000 "''GET''" "''/api''" None]
          c e s
    by simp
qed

section \<open>How the parts of the state change\<close>

lemma log_fields [simp]:
  "config (log m s) = config s"
  "pendingRequests (log m s) = pendingRequests s"
  "heap (log m s) = heap s"
  "promises (log m s) = promises s"
  "next_addr (log m s) = next_addr s"
  "isOnline (log m s) = isOnline s"
  "isActive (log m s) = isActive s"
  "retryTimer (log m s) = retryTimer s"
  "intercepting (log m s) = intercepting s"
  "listening (log m s) = listening s"
  "sweeps (log m s) = sweeps s"
  "trace (log m s) = trace s"
  by (simp_all add: log_def)

lemma emit_fields [simp]:
  "config (emit e s) = config s"
  "pendingRequests (emit e s) = pendingRequests s"
  "heap (emit e s) = heap s"
  "promises (emit e s) = promises s"
  "next_addr (emit e s) = next_addr s"
  "isOnline (emit e s) = isOnline s"
  "isActive (emit e s) = isActive s"
  "retryTimer (emit e s) = retryTimer s"
  "intercepting (emit e s) = intercepting s"
  "listening (emit e s) = listening s"
  "sweeps (emit e s) = sweeps s"
  "trace (emit e s) = e # trace s"
  "console (emit e s) = console s"
  by (simp_all add: emit_def)

lemma promise_settle_fields [simp]:
  "config (promise_settle a v s) = config s"
  "pendingRequests (promise_settle a v s) = pendingRequests s"
  "heap (promise_settle a v s) = heap s"
  "next_addr (promise_settle a v s) = next_addr s"
  "isOnline (promise_settle a v s) = isOnline s"
  "isActive (promise_settle a v s) = isActive s"
  "retryTimer (promise_settle a v s) = retryTimer s"
  "intercepting (promise_settle a v s) = intercepting s"
  "listening (promise_settle a v s) = listening s"
  "sweeps (promise_settle a v s) = sweeps s"
  "trace (promise_settle a v s) = trace s"
  "console (promise_settle a v s) = console s"
  by (simp_all add: promise_settle_def)

lemma request_resolve_fields [simp]:
  "config (request_resolve a r s) = config s"
  "pendingRequests (request_resolve a r s) = pendingRequests s"
  "heap (request_resolve a r s) = heap s"
  "next_addr (request_resolve a r s) = next_addr s"
  "isOnline (request_resolve a r s) = isOnline s"
  "isActive (request_resolve a r s) = isActive s"
  "retryTimer (request_resolve a r s) = retryTimer s"
  "intercepting (request_resolve a r s) = intercepting s"
  "listening (request_resolve a r s) = listening s"
  "sweeps (request_resolve a r s) = sweeps s"
  "trace (request_resolve a r s) = Resolve a r # trace s"
  "console (request_resolve a r s) = console s"
  by (simp_all add: request_resolve_def Let_def split: caller.splits)

lemma request_reject_fields [simp]:
  "config (fst (request_reject a e s)) = config s"
  "pendingRequests (fst (request_reject a e s)) = pendingRequests s"
  "heap (fst (request_reject a e s)) = heap s"
  "next_addr (fst (request_reject a e s)) = next_addr s"
  "isOnline (fst (request_reject a e s)) = isOnline s"
  "isActive (fst (request_reject a e s)) = isActive s"
  "retryTimer (fst (request_reject a e s)) = retryTimer s"
  "intercepting (fst (request_reject a e s)) = intercepting s"
  "listening (fst (request_reject a e s)) = listening s"
  "sweeps (fst (request_reject a e s)) = sweeps s"
  "trace (fst (request_reject a e s)) = Reject a e # trace s"
  "console (fst (request_reject a e s)) = console s"
  by (simp_all add: request_reject_def Let_def split: js_error.splits)

lemma request_reject_threw [simp]: "snd (request_reject a e s) = (e = ErrNull)"
  by (simp add: request_reject_def Let_def split: js_error.splits)

lemma remove_request_fields [simp]:
  "config (remove_request a s) = config s"
  "pendingRequests (remove_request a s) = AList.delete (rid (heap s a)) (pendingRequests s)"
  "heap (remove_request a s) = heap s"
  "promises (remove_request a s) = promises s"
  "next_addr (remove_request a s) = next_addr s"
  "isOnline (remove_request a s) = isOnline s"
  "isActive (remove_request a s) = isActive s"
  "retryTimer (remove_request a s) = retryTimer s"
  "intercepting (remove_request a s) = intercepting s"
  "listening (remove_request a s) = listening s"
  "sweeps (remove_request a s) = sweeps s"
  "trace (remove_request a s) = trace s"
  "console (remove_request a s) = console s"
  by (simp_all add: remove_request_def)

lemma dispatch_fields [simp]:
  "config (dispatch now a s) = config s"
  "pendingRequests (dispatch now a s) = pendingRequests s"
  "heap (dispatch now a s) =
     (heap s)(a := (heap s a)\<lparr>retryCount := retryCount (heap s a) + 1, timestamp := now\<rparr>)"
  "promises (dispatch now a s) = promises s"
  "next_addr (dispatch now a s) = next_addr s"
  "isOnline (dispatch now a s) = isOnline s"
  "isActive (dispatch now a s) = isActive s"
  "retryTimer (dispatch now a s) = retryTimer s"
  "intercepting (dispatch now a s) = intercepting s"
  "listening (dispatch now a s) = listening s"
  "sweeps (dispatch now a s) = sweeps s"
  "trace (dispatch now a s) =
     Fetch a (url (heap s a)) (options (heap s a)) #
     OnRetry a (onRetry (config s)) ErrNull (retryCount (heap s a) + 1) (url (heap s a))
       (options (heap s a)) # trace s"
  by (simp_all add: dispatch_def Let_def)

section \<open>The example runs, evaluated\<close>

lemmas eval_defs = createApiInterceptor_def no_options_def nullish_def interceptedFetch_def
  handleFailedRequest_def handleFailedXHRRequest_def store_request_def generateRequestId_def
  toString36_def nat36.simps digit36_def log_def emit_def retryPendingRequests_def suspend_def
  dispatch_def fetch_settled_def handle_outcome_def remove_request_def request_resolve_def
  request_reject_def promise_settle_def clearPendingRequests_def cleared_error_def
  max_retries_error_def updateConfig_def merge_config_def retryLoop_def start_def stop_def
  handleOnline_def handleOffline_def xhr_onerror_def xhr_onload_def extractXHRHeaders_def
  default_condition_status default_condition_no_response Let_def
  api_request_def unavailable_def not_found_def fine_def aborted_def failed_to_fetch_def

lemma one_queued_eval:
  "pendingRequests one_queued = [(''k3j0'', 0)]"
  "heap one_queued 0 = \<lparr>rid = ''k3j0'', url = ''/api'', options = api_request, retryCount = 0,
     timestamp = 0, caller = FetchCaller\<rparr>"
  "promises one_queued 0 = Pending"
  "trace one_queued = []"
  "sweeps one_queued = []"
  "next_addr one_queued = 1"
  "delayTime (config one_queued) = 1000"
  "maxRetries (config one_queued) = 3"
  "retryCondition (config one_queued) = defaultRetryCondition"
  "isActive one_queued" "isOnline one_queued" "retryTimer one_queued" "listening one_queued"
  by (simp_all add: one_queued_def eval_defs)

lemma in_flight_eval:
  "pendingRequests in_flight = [(''k3j0'', 0)]"
  "heap in_flight 0 = \<lparr>rid = ''k3j0'', url = ''/api'', options = api_request, retryCount = 1,
     timestamp = 5000, caller = FetchCaller\<rparr>"
  "promises in_flight 0 = Pending"
  "trace in_flight = [Fetch 0 ''/api'' api_request, OnRetry 0 None ErrNull 1 ''/api'' api_request]"
  "sweeps in_flight = [(0, [])]"
  "next_addr in_flight = 1"
  "maxRetries (config in_flight) = 3"
  "onMaxRetriesExceeded (config in_flight) = None"
  "retryCondition (config in_flight) = defaultRetryCondition"
  by (simp_all add: in_flight_def one_queued_def eval_defs)

lemma last_attempt_eval:
  "pendingRequests last_attempt = [(''k3j0'', 0)]"
  "heap last_attempt 0 = \<lparr>rid = ''k3j0'', url = ''/api'', options = api_request, retryCount = 1,
     timestamp = 5000, caller = FetchCaller\<rparr>"
  "promises last_attempt 0 = Pending"
  "trace last_attempt = [Fetch 0 ''/api'' api_request, OnRetry 0 None ErrNull 1 ''/api'' api_request]"
  "sweeps last_attempt = [(0, [])]"
  "maxRetries (config last_attempt) = 1"
  "onMaxRetriesExceeded (config last_attempt) = None"
  "retryCondition (config last_attempt) = defaultRetryCondition"
  by (simp_all add: last_attempt_def one_queued_def eval_defs)

lemma one_failed_eval:
  "pendingRequests one_failed = [(''k3j0'', 0)]"
  "heap one_failed 0 = \<lparr>rid = ''k3j0'', url = ''/api'', options = api_request, retryCount = 1,
     timestamp = 5000, caller = FetchCaller\<rparr>"
  "trace one_failed = [Fetch 0 ''/api'' api_request, OnRetry 0 None ErrNull 1 ''/api'' api_request]"
  "sweeps one_failed = []"
  "maxRetries (config one_failed) = 3"
  "delayTime (config one_failed) = 1000"
  "onRetry (config one_failed) = None"
  by (simp_all add: one_failed_def in_flight_def one_queued_def eval_defs)

lemma lowered_eval:
  "pendingRequests lowered = [(''k3j0'', 0)]"
  "heap lowered 0 = \<lparr>rid = ''k3j0'', url = ''/api'', options = api_request, retryCount = 1,
     timestamp = 5000, caller = FetchCaller\<rparr>"
  "trace lowered = [Fetch 0 ''/api'' api_request, OnRetry 0 None ErrNull 1 ''/api'' api_request]"
  "sweeps lowered = []"
  "maxRetries (config lowered) = 1"
  "delayTime (config lowered) = 1000"
  "onRetry (config lowered) = None"
  "onMaxRetriesExceeded (config lowered) = None"
  "retryTimer lowered" "isOnline lowered"
  by (simp_all add: lowered_def one_failed_def in_flight_def one_queued_def eval_defs)

section \<open>A request that is not due is not dispatched\<close>

lemma sweep_loop_eq:
  "sweep_loop now as s =
     (case dropWhile (\<lambda>a. \<not> due now s a) as of
        [] \<Rightarrow> (s, None)
      | c # rest \<Rightarrow> (dispatch now c s, Some (c, rest)))"
  by (induction as) (simp_all add: due_def)

lemma suspend_fields [simp]:
  "config (suspend r) = config (fst r)"
  "pendingRequests (suspend r) = pendingRequests (fst r)"
  "heap (suspend r) = heap (fst r)"
  "promises (suspend r) = promises (fst r)"
  "next_addr (suspend r) = next_addr (fst r)"
  "isOnline (suspend r) = isOnline (fst r)"
  "isActive (suspend r) = isActive (fst r)"
  "retryTimer (suspend r) = retryTimer (fst r)"
  "intercepting (suspend r) = intercepting (fst r)"
  "listening (suspend r) = listening (fst r)"
  "trace (suspend r) = trace (fst r)"
  "console (suspend r) = console (fst r)"
  "sweeps (suspend r) = (case snd r of None \<Rightarrow> sweeps (fst r) | Some t \<Rightarrow> sweeps (fst r) @ [t])"
  by (simp_all add: suspend_def split: option.splits)

lemma sweep_loop_cases:
  obtains (idle) "sweep_loop now as s = (s, None)" "\<forall>a \<in> set as. \<not> due now s a"
  | (dispatched) pre c rest where "sweep_loop now as s = (dispatch now c s, Some (c, rest))"
      "as = pre @ c # rest" "due now s c" "\<forall>a \<in> set pre. \<not> due now s a"
proof (cases "dropWhile (\<lambda>a. \<not> due now s a) as")
  case Nil
  then have "\<forall>a \<in> set as. \<not> due now s a" by simp
  moreover have "sweep_loop now as s = (s, None)" by (simp only: sweep_loop_eq Nil list.case)
  ultimately show ?thesis using idle by blast
next
  case (Cons c rest)
  then have "as = takeWhile (\<lambda>a. \<not> due now s a) as @ c # rest"
    by (metis takeWhile_dropWhile_id)
  moreover have "due now s c" using Cons by (metis (full_types) hd_dropWhile list.sel(1) list.distinct(1))
  moreover have "\<forall>a \<in> set (takeWhile (\<lambda>a. \<not> due now s a) as). \<not> due now s a"
    by (auto dest: set_takeWhileD)
  moreover have "sweep_loop now as s = (dispatch now c s, Some (c, rest))"
    by (simp only: sweep_loop_eq Cons list.case)
  ultimately show ?thesis using dispatched by blast
qed

lemma sweep_loop_not_due:
  assumes "\<not> due now s a"
  shows "heap (fst (sweep_loop now as s)) a = heap s a \<and>
         filter (attempts a) (trace (fst (sweep_loop now as s))) = filter (attempts a) (trace s) \<and>
         (\<forall>t. snd (sweep_loop now as s) = Some t \<longrightarrow> fst t \<noteq> a)"
proof (rule sweep_loop_cases [of now as s])
  assume "sweep_loop now as s = (s, None)"
  then show ?thesis by simp
next
  fix pre c rest
  assume "sweep_loop now as s = (dispatch now c s, Some (c, rest))" "due now s c"
  then show ?thesis using assms by auto
qed

lemma sweep_loop_frame [simp]:
  "config (fst (sweep_loop now as s)) = config s"
  "pendingRequests (fst (sweep_loop now as s)) = pendingRequests s"
  "promises (fst (sweep_loop now as s)) = promises s"
  "next_addr (fst (sweep_loop now as s)) = next_addr s"
  "isOnline (fst (sweep_loop now as s)) = isOnline s"
  "isActive (fst (sweep_loop now as s)) = isActive s"
  "retryTimer (fst (sweep_loop now as s)) = retryTimer s"
  "intercepting (fst (sweep_loop now as s)) = intercepting s"
  "listening (fst (sweep_loop now as s)) = listening s"
  "sweeps (fst (sweep_loop now as s)) = sweeps s"
  by (rule sweep_loop_cases [of now as s]; simp)+

lemma handle_outcome_frame [simp]:
  "config (fst (handle_outcome a out s)) = config s"
  "heap (fst (handle_outcome a out s)) = heap s"
  "next_addr (fst (handle_outcome a out s)) = next_addr s"
  "isOnline (fst (handle_outcome a out s)) = isOnline s"
  "isActive (fst (handle_outcome a out s)) = isActive s"
  "retryTimer (fst (handle_outcome a out s)) = retryTimer s"
  "intercepting (fst (handle_outcome a out s)) = intercepting s"
  "listening (fst (handle_outcome a out s)) = listening s"
  "sweeps (fst (handle_outcome a out s)) = sweeps s"
  by (simp_all add: handle_outcome_def Let_def split: outcome.splits)

lemma handle_outcome_attempts [simp]:
  "filter (attempts b) (trace (fst (handle_outcome a out s))) = filter (attempts b) (trace s)"
  by (simp add: handle_outcome_def Let_def split: outcome.splits)

text \<open>
  Claim C6. Every sweep runs its loop in \<open>retryPendingRequests\<close> (up to its first await)
  and in \<open>fetch_settled\<close> (after each await). In both, a request for which the time since
  its last attempt is less than \<^verbatim>\<open>delayTime\<close> keeps its \<^verbatim>\<open>retryCount\<close> and its
  \<^verbatim>\<open>timestamp\<close>, no call of \<^verbatim>\<open>onRetry\<close> or of fetch is made for it, and it does not become
  the request in flight of a sweep; a call of \<open>retryPendingRequests\<close> leaves the map as it is.
\<close>

theorem not_due_not_dispatched:
  assumes "now - timestamp (heap s a) < delayTime (config s)"
  shows "heap (retryPendingRequests now s) a = heap s a \<and>
         filter (attempts a) (trace (retryPendingRequests now s)) = filter (attempts a) (trace s) \<and>
         pendingRequests (retryPendingRequests now s) = pendingRequests s \<and>
         (a \<notin> fst ` set (sweeps s) \<longrightarrow> a \<notin> fst ` set (sweeps (retryPendingRequests now s))) \<and>
         heap (fetch_settled now i out s) a = heap s a \<and>
         filter (attempts a) (trace (fetch_settled now i out s)) = filter (attempts a) (trace s) \<and>
         (a \<notin> fst ` set (sweeps s) \<longrightarrow> a \<notin> fst ` set (sweeps (fetch_settled now i out s)))"
proof -
  have nd: "\<not> due now s a" using assms by (simp add: due_def)
  have r: "heap (retryPendingRequests now s) a = heap s a \<and>
         filter (attempts a) (trace (retryPendingRequests now s)) = filter (attempts a) (trace s) \<and>
         pendingRequests (retryPendingRequests now s) = pendingRequests s \<and>
         (a \<notin> fst ` set (sweeps s) \<longrightarrow> a \<notin> fst ` set (sweeps (retryPendingRequests now s)))"
    using sweep_loop_not_due [OF nd, of "map snd (pendingRequests s)"]
    by (auto simp: retryPendingRequests_def image_iff split: option.splits)
  have f: "heap (fetch_settled now i out s) a = heap s a \<and>
         filter (attempts a) (trace (fetch_settled now i out s)) = filter (attempts a) (trace s) \<and>
         (a \<notin> fst ` set (sweeps s) \<longrightarrow> a \<notin> fst ` set (sweeps (fetch_settled now i out s)))"
  proof (cases "i < length (sweeps s)")
    case False
    then show ?thesis by (simp add: fetch_settled_def)
  next
    case True
    define s0 where "s0 = s\<lparr>sweeps := take i (sweeps s) @ drop (Suc i) (sweeps s)\<rparr>"
    define s1 where "s1 = fst (handle_outcome (fst (sweeps s ! i)) out s0)"
    have nd1: "\<not> due now s1 a" using nd by (simp add: due_def s1_def s0_def)
    have "set (sweeps s1) \<subseteq> set (sweeps s)"
      by (auto simp: s1_def s0_def dest: in_set_takeD in_set_dropD)
    then have sw: "a \<notin> fst ` set (sweeps s) \<longrightarrow> a \<notin> fst ` set (sweeps s1)"
      by auto
    have h1: "heap s1 = heap s" "filter (attempts a) (trace s1) = filter (attempts a) (trace s)"
      by (simp_all add: s1_def s0_def)
    have fs: "fetch_settled now i out s = s1 \<or>
              fetch_settled now i out s = suspend (sweep_loop now (snd (sweeps s ! i)) s1)"
      using True by (simp add: fetch_settled_def Let_def s1_def s0_def)
    from fs show ?thesis
    proof
      assume "fetch_settled now i out s = s1"
      then show ?thesis using h1 sw by simp
    next
      assume e: "fetch_settled now i out s = suspend (sweep_loop now (snd (sweeps s ! i)) s1)"
      show ?thesis
        using sweep_loop_not_due [OF nd1, of "snd (sweeps s ! i)"] h1 sw
        unfolding e by (cases "snd (sweep_loop now (snd (sweeps s ! i)) s1)") auto
    qed
  qed
  show ?thesis using r f by simp
qed

theorem not_due_not_dispatched_witness:
  "heap (retryPendingRequests 500 one_queued) 0
     = \<lparr>rid = ''k3j0'', url = ''/api'', options = api_request, retryCount = 0,
        timestamp = 0, caller = FetchCaller\<rparr> \<and>
   filter (attempts 0) (trace (retryPendingRequests 500 one_queued)) = [] \<and>
   pendingRequests (retryPendingRequests 500 one_queued) = [(''k3j0'', 0)] \<and>
   0 \<notin> fst ` set (sweeps (retryPendingRequests 500 one_queued))"
proof -
  have "500 - timestamp (heap one_queued 0) < delayTime (config one_queued)"
    by (simp add: one_queued_eval)
  from not_due_not_dispatched [OF this, of 0 "Returned fine"] show ?thesis
    by (simp add: one_queued_eval)
qed

section \<open>What a sweep does with the outcome of a dispatch\<close>

lemma sweep_loop_concludes [simp]:
  "filter (concludes b) (trace (fst (sweep_loop now as s))) = filter (concludes b) (trace s)"
  by (rule sweep_loop_cases [of now as s]; simp)

lemma request_resolve_promises:
  "promises (request_resolve a r s) =
     (if caller (heap s a) = FetchCaller \<and> promises s a = Pending
      then (promises s)(a := Fulfilled r) else promises s)"
  by (simp add: request_resolve_def promise_settle_def Let_def split: caller.splits)

lemma request_reject_promises:
  "promises (fst (request_reject a e s)) =
     (if e \<noteq> ErrNull \<and> error_message e \<noteq> Some ''INTERCEPTOR_CLEARED'' \<and> promises s a = Pending
      then (promises s)(a := Rejected e) else promises s)"
  by (cases e) (simp_all add: request_reject_def promise_settle_def Let_def)

lemma handle_outcome_resolves:
  assumes "ok resp \<or> \<not> retryCondition (config s) ErrNull (Some resp)"
  shows "pendingRequests (fst (handle_outcome a (Returned resp) s))
           = AList.delete (rid (heap s a)) (pendingRequests s)"
    and "trace (fst (handle_outcome a (Returned resp) s)) = Resolve a resp # trace s"
    and "promises (fst (handle_outcome a (Returned resp) s))
           = promises (request_resolve a resp s)"
  using assms by (simp_all add: handle_outcome_def Let_def request_resolve_promises)

lemma handle_outcome_exhausted_response:
  assumes "\<not> ok resp" and "retryCondition (config s) ErrNull (Some resp)"
      and "retryCount (heap s a) \<ge> maxRetries (config s)"
  shows "pendingRequests (fst (handle_outcome a (Returned resp) s))
           = AList.delete (rid (heap s a)) (pendingRequests s)"
    and "trace (fst (handle_outcome a (Returned resp) s))
           = Reject a (max_retries_error (heap s a)) #
             OnMaxRetriesExceeded a (onMaxRetriesExceeded (config s)) ErrNull
               (url (heap s a)) (options (heap s a)) # trace s"
    and "promises (fst (handle_outcome a (Returned resp) s))
           = promises (fst (request_reject a (max_retries_error (heap s a)) s))"
  using assms by (simp_all add: handle_outcome_def Let_def request_reject_promises)

lemma handle_outcome_requeued_response:
  assumes "\<not> ok resp" and "retryCondition (config s) ErrNull (Some resp)"
      and "retryCount (heap s a) < maxRetries (config s)"
  shows "handle_outcome a (Returned resp) s = (s, False)"
  using assms by (simp add: handle_outcome_def Let_def)

lemma handle_outcome_requeued_exception:
  assumes "retryCondition (config s) e None"
      and "retryCount (heap s a) < maxRetries (config s)"
  shows "handle_outcome a (Threw e) s = (s, False)"
  using assms by (simp add: handle_outcome_def Let_def)

lemma handle_outcome_exhausted_exception:
  assumes "retryCount (heap s a) \<ge> maxRetries (config s)"
  shows "pendingRequests (fst (handle_outcome a (Threw e) s))
           = AList.delete (rid (heap s a)) (pendingRequests s)"
    and "trace (fst (handle_outcome a (Threw e) s))
           = Reject a e # OnMaxRetriesExceeded a (onMaxRetriesExceeded (config s)) e
               (url (heap s a)) (options (heap s a)) # trace s"
    and "promises (fst (handle_outcome a (Threw e) s)) = promises (fst (request_reject a e s))"
  using assms by (simp_all add: handle_outcome_def Let_def request_reject_promises)

lemma handle_outcome_refused:
  assumes "retryCount (heap s a) < maxRetries (config s)" and "\<not> retryCondition (config s) e None"
  shows "pendingRequests (fst (handle_outcome a (Threw e) s))
           = AList.delete (rid (heap s a)) (pendingRequests s)"
    and "trace (fst (handle_outcome a (Threw e) s)) = Reject a e # trace s"
    and "promises (fst (handle_outcome a (Threw e) s)) = promises (fst (request_reject a e s))"
  using assms by (simp_all add: handle_outcome_def Let_def request_reject_promises)

lemma fetch_settled_after_outcome:
  assumes "i < length (sweeps s)" and "sweeps s ! i = (a, rest)"
  shows "pendingRequests (fetch_settled now i out s)
           = pendingRequests (fst (handle_outcome a out (s\<lparr>sweeps := take i (sweeps s) @ drop (Suc i) (sweeps s)\<rparr>)))"
    and "promises (fetch_settled now i out s)
           = promises (fst (handle_outcome a out (s\<lparr>sweeps := take i (sweeps s) @ drop (Suc i) (sweeps s)\<rparr>)))"
    and "filter (concludes b) (trace (fetch_settled now i out s))
           = filter (concludes b) (trace (fst (handle_outcome a out (s\<lparr>sweeps := take i (sweeps s) @ drop (Suc i) (sweeps s)\<rparr>))))"
  using assms by (simp_all add: fetch_settled_def Let_def)

lemma registry_ok_delete:
  assumes "registry_ok s"
  shows "a \<notin> snd ` set (AList.delete (rid (heap s a)) (pendingRequests s))"
  using assms by (auto simp: registry_ok_def AList.delete_eq)

text \<open>
  Claim C7. When the fetch awaited by a sweep returns a response that is \<^verbatim>\<open>ok\<close>, or one
  for which the retry condition is false, the sweep deletes the request from the map and
  calls its \<^verbatim>\<open>resolve\<close> with that response: of the events that conclude the request, the
  one new event is this call, so neither \<^verbatim>\<open>reject\<close> nor \<^verbatim>\<open>onMaxRetriesExceeded\<close> is
  called, and the promise of a request stored by \<^verbatim>\<open>handleFailedRequest\<close> is fulfilled with the
  response if it was pending. The map no longer has the id of the request as a key; where
  \<open>registry_ok\<close> holds, as it does in every state reached from a new interceptor, the
  request is then no value of the map either.
\<close>

theorem final_response_resolves:
  assumes "i < length (sweeps s)" and "sweeps s ! i = (a, rest)"
      and "ok resp \<or> \<not> retryCondition (config s) ErrNull (Some resp)"
  shows "pendingRequests (fetch_settled now i (Returned resp) s)
           = AList.delete (rid (heap s a)) (pendingRequests s) \<and>
         (registry_ok s \<longrightarrow> a \<notin> snd ` set (pendingRequests (fetch_settled now i (Returned resp) s))) \<and>
         filter (concludes a) (trace (fetch_settled now i (Returned resp) s))
           = Resolve a resp # filter (concludes a) (trace s) \<and>
         (caller (heap s a) = FetchCaller \<and> promises s a = Pending
            \<longrightarrow> promises (fetch_settled now i (Returned resp) s) a = Fulfilled resp)"
  using registry_ok_delete [of s a] assms(3)
  by (simp add: fetch_settled_after_outcome [OF assms(1) assms(2)]
        handle_outcome_resolves request_resolve_promises)

theorem final_response_resolves_witness:
  "pendingRequests (fetch_settled 5100 0 (Returned not_found) in_flight) = [] \<and>
   0 \<notin> snd ` set (pendingRequests (fetch_settled 5100 0 (Returned not_found) in_flight)) \<and>
   filter (concludes 0) (trace (fetch_settled 5100 0 (Returned not_found) in_flight))
     = [Resolve 0 not_found] \<and>
   promises (fetch_settled 5100 0 (Returned not_found) in_flight) 0 = Fulfilled not_found"
proof -
  have 1: "0 < length (sweeps in_flight)" and 2: "sweeps in_flight ! 0 = (0, [])"
    by (simp_all add: in_flight_eval)
  have 3: "ok not_found \<or> \<not> retryCondition (config in_flight) ErrNull (Some not_found)"
    by (simp add: in_flight_eval default_condition_status not_found_def)
  have 4: "registry_ok in_flight"
    by (simp add: registry_ok_def in_flight_eval)
  from final_response_resolves [OF 1 2 3, of 5100] 4 show ?thesis
    by (simp add: in_flight_eval)
qed

text \<open>
  Claim C8. When the fetch awaited by a sweep throws: if the \<^verbatim>\<open>retryCount\<close> of the request
  has reached \<^verbatim>\<open>maxRetries\<close>, the request is deleted from the map, \<^verbatim>\<open>onMaxRetriesExceeded\<close>
  is called with the error and then \<^verbatim>\<open>reject\<close> with the error; otherwise, if the retry
  condition is false for the error, the request is deleted and \<^verbatim>\<open>reject\<close> is called with
  the error in the same step, without \<^verbatim>\<open>onMaxRetriesExceeded\<close>; otherwise the map and
  the promises stay as they are and nothing concludes the request. In the first two cases
  a pending promise is rejected with the error, unless the error is \<^verbatim>\<open>null\<close> or carries
  the message \<^verbatim>\<open>INTERCEPTOR_CLEARED\<close>.
\<close>

theorem exception_outcome:
  assumes "i < length (sweeps s)" and "sweeps s ! i = (a, rest)"
  shows "(retryCount (heap s a) \<ge> maxRetries (config s) \<longrightarrow>
            pendingRequests (fetch_settled now i (Threw e) s)
              = AList.delete (rid (heap s a)) (pendingRequests s) \<and>
            filter (concludes a) (trace (fetch_settled now i (Threw e) s))
              = Reject a e # OnMaxRetriesExceeded a (onMaxRetriesExceeded (config s)) e
                  (url (heap s a)) (options (heap s a)) # filter (concludes a) (trace s)) \<and>
         (retryCount (heap s a) < maxRetries (config s) \<and> \<not> retryCondition (config s) e None \<longrightarrow>
            pendingRequests (fetch_settled now i (Threw e) s)
              = AList.delete (rid (heap s a)) (pendingRequests s) \<and>
            filter (concludes a) (trace (fetch_settled now i (Threw e) s))
              = Reject a e # filter (concludes a) (trace s)) \<and>
         (retryCount (heap s a) < maxRetries (config s) \<and> retryCondition (config s) e None \<longrightarrow>
            pendingRequests (fetch_settled now i (Threw e) s) = pendingRequests s \<and>
            promises (fetch_settled now i (Threw e) s) = promises s \<and>
            filter (concludes a) (trace (fetch_settled now i (Threw e) s))
              = filter (concludes a) (trace s)) \<and>
         ((retryCount (heap s a) \<ge> maxRetries (config s) \<or> \<not> retryCondition (config s) e None) \<and>
          promises s a = Pending \<and> e \<noteq> ErrNull \<and> error_message e \<noteq> Some ''INTERCEPTOR_CLEARED'' \<longrightarrow>
            promises (fetch_settled now i (Threw e) s) a = Rejected e)"
proof -
  note fs = fetch_settled_after_outcome [OF assms(1) assms(2)]
  have c1: "retryCount (heap s a) \<ge> maxRetries (config s) \<Longrightarrow> ?thesis"
    by (simp add: fs handle_outcome_exhausted_exception request_reject_promises)
  have c2: "retryCount (heap s a) < maxRetries (config s) \<Longrightarrow> \<not> retryCondition (config s) e None
              \<Longrightarrow> ?thesis"
    by (simp add: fs handle_outcome_refused request_reject_promises)
  have c3: "retryCount (heap s a) < maxRetries (config s) \<Longrightarrow> retryCondition (config s) e None
              \<Longrightarrow> ?thesis"
    by (simp add: fs handle_outcome_requeued_exception)
  show ?thesis using c1 c2 c3 by (cases "retryCount (heap s a) \<ge> maxRetries (config s)") auto
qed

theorem exception_outcome_witness:
  "pendingRequests (fetch_settled 5100 0 (Threw failed_to_fetch) last_attempt) = [] \<and>
   filter (concludes 0) (trace (fetch_settled 5100 0 (Threw failed_to_fetch) last_attempt))
     = [Reject 0 failed_to_fetch, OnMaxRetriesExceeded 0 None failed_to_fetch ''/api'' api_request] \<and>
   pendingRequests (fetch_settled 5100 0 (Threw aborted) in_flight) = [] \<and>
   filter (concludes 0) (trace (fetch_settled 5100 0 (Threw aborted) in_flight))
     = [Reject 0 aborted] \<and>
   promises (fetch_settled 5100 0 (Threw aborted) in_flight) 0 = Rejected aborted \<and>
   pendingRequests (fetch_settled 5100 0 (Threw failed_to_fetch) in_flight) = [(''k3j0'', 0)] \<and>
   filter (concludes 0) (trace (fetch_settled 5100 0 (Threw failed_to_fetch) in_flight)) = [] \<and>
   promises (fetch_settled 5100 0 (Threw failed_to_fetch) in_flight) 0 = Pending"
proof -
  have 1: "0 < length (sweeps in_flight)" and 2: "sweeps in_flight ! 0 = (0, [])"
    and 3: "0 < length (sweeps last_attempt)" and 4: "sweeps last_attempt ! 0 = (0, [])"
    by (simp_all add: in_flight_eval last_attempt_eval)
  have 5: "retryCondition (config in_flight) failed_to_fetch None"
    and 6: "\<not> retryCondition (config in_flight) aborted None"
    by (simp_all add: in_flight_eval default_condition_no_response failed_to_fetch_def aborted_def)
  from exception_outcome [OF 3 4, of 5100 failed_to_fetch]
       exception_outcome [OF 1 2, of 5100 aborted]
       exception_outcome [OF 1 2, of 5100 failed_to_fetch] 5 6
  show ?thesis
    by (simp add: in_flight_eval last_attempt_eval aborted_def)
qed

section \<open>Logging does not change what an interceptor does\<close>

lemma observable_fields [simp]:
  "pendingRequests (observable s) = pendingRequests s"
  "heap (observable s) = heap s"
  "promises (observable s) = promises s"
  "next_addr (observable s) = next_addr s"
  "isOnline (observable s) = isOnline s"
  "isActive (observable s) = isActive s"
  "retryTimer (observable s) = retryTimer s"
  "intercepting (observable s) = intercepting s"
  "listening (observable s) = listening s"
  "sweeps (observable s) = sweeps s"
  "trace (observable s) = trace s"
  "console (observable s) = []"
  "delayTime (config (observable s)) = delayTime (config s)"
  "retryInterval (config (observable s)) = retryInterval (config s)"
  "maxRetries (config (observable s)) = maxRetries (config s)"
  "retryCondition (config (observable s)) = retryCondition (config s)"
  "onRetry (config (observable s)) = onRetry (config s)"
  "onMaxRetriesExceeded (config (observable s)) = onMaxRetriesExceeded (config s)"
  "enableLogging (config (observable s)) = False"
  by (simp_all add: observable_def)

lemma observable_idem [simp]: "observable (observable s) = observable s"
  by (simp add: observable_def)

lemma obs_log [simp]: "observable (log m s) = observable s" "log m (observable s) = observable s"
  by (simp_all add: log_def observable_def)

lemma obs_emit [simp]: "emit e (observable s) = observable (emit e s)"
  by (simp add: emit_def observable_def)

lemma obs_promise_settle [simp]: "promise_settle a v (observable s) = observable (promise_settle a v s)"
  by (simp add: promise_settle_def observable_def)

lemma obs_request_resolve [simp]: "request_resolve a r (observable s) = observable (request_resolve a r s)"
  by (simp add: request_resolve_def Let_def split: caller.splits)

lemma obs_request_reject [simp]:
  "request_reject a e (observable s) = (observable (fst (request_reject a e s)), e = ErrNull)"
  by (cases e) (simp_all add: request_reject_def Let_def)

lemma obs_remove_request [simp]: "remove_request a (observable s) = observable (remove_request a s)"
  by (simp add: remove_request_def observable_def)

lemma obs_store_request [simp]:
  "store_request c rnd now u opts (observable s) = observable (store_request c rnd now u opts s)"
  by (simp add: store_request_def observable_def Let_def)

lemma obs_dispatch [simp]: "dispatch now a (observable s) = observable (dispatch now a s)"
  by (simp add: dispatch_def Let_def log_def emit_def observable_def del: obs_emit obs_log)

lemma obs_due [simp]: "due now (observable s) a = due now s a"
  by (simp add: due_def)

lemma obs_sweep_loop [simp]:
  "sweep_loop now as (observable s)
     = (observable (fst (sweep_loop now as s)), snd (sweep_loop now as s))"
  by (induction as) simp_all

lemma obs_suspend [simp]: "suspend (observable s, t) = observable (suspend (s, t))"
  by (simp add: suspend_def observable_def split: option.splits)

lemma obs_retryPendingRequests [simp]:
  "retryPendingRequests now (observable s) = observable (retryPendingRequests now s)"
  by (simp add: retryPendingRequests_def)

lemma obs_handle_outcome [simp]:
  "handle_outcome a out (observable s)
     = (observable (fst (handle_outcome a out s)), snd (handle_outcome a out s))"
  by (simp add: handle_outcome_def Let_def split: outcome.splits)

lemma obs_updates [simp]:
  "(observable s)\<lparr>sweeps := w\<rparr> = observable (s\<lparr>sweeps := w\<rparr>)"
  "(observable s)\<lparr>pendingRequests := p\<rparr> = observable (s\<lparr>pendingRequests := p\<rparr>)"
  "(observable s)\<lparr>isActive := v\<rparr> = observable (s\<lparr>isActive := v\<rparr>)"
  "(observable s)\<lparr>isOnline := v\<rparr> = observable (s\<lparr>isOnline := v\<rparr>)"
  "(observable s)\<lparr>retryTimer := v\<rparr> = observable (s\<lparr>retryTimer := v\<rparr>)"
  "(observable s)\<lparr>intercepting := v\<rparr> = observable (s\<lparr>intercepting := v\<rparr>)"
  "(observable s)\<lparr>listening := v\<rparr> = observable (s\<lparr>listening := v\<rparr>)"
  by (simp_all add: observable_def)

lemma obs_fetch_settled [simp]:
  "fetch_settled now i out (observable s) = observable (fetch_settled now i out s)"
  by (simp add: fetch_settled_def Let_def)

lemma obs_fold_reject:
  "fold (\<lambda>a s'. fst (request_reject a e s')) as (observable s)
     = observable (fold (\<lambda>a s'. fst (request_reject a e s')) as s)"
  by (induction as arbitrary: s) simp_all

lemma obs_clearPendingRequests [simp]:
  "clearPendingRequests (observable s) = observable (clearPendingRequests s)"
  by (simp add: clearPendingRequests_def obs_fold_reject)

lemma obs_updateConfig:
  "observable (updateConfig (c\<lparr>opt_enableLogging := None\<rparr>) (observable s))
     = observable (updateConfig c s)"
  by (simp add: updateConfig_def merge_config_def observable_def nullish_def log_def
        split: option.splits)

lemma obs_retryLoop [simp]: "retryLoop now (observable s) = observable (retryLoop now s)"
  by (simp add: retryLoop_def Let_def)

lemma obs_start [simp]: "start now (observable s) = observable (start now s)"
  by (simp add: start_def)

lemma obs_stop [simp]: "stop (observable s) = observable (stop s)"
  by (simp add: stop_def)

lemma obs_log_update [simp]:
  "observable ((log m s)\<lparr>isOnline := v\<rparr>) = observable (s\<lparr>isOnline := v\<rparr>)"
  by (simp add: observable_def log_def)

lemma obs_handleOnline [simp]: "handleOnline now (observable s) = observable (handleOnline now s)"
proof -
  have "observable (handleOnline now s)
          = retryPendingRequests now
              (observable ((log [Txt ''Network back online - retrying pending requests''] s)
                 \<lparr>isOnline := True\<rparr>))"
    unfolding handleOnline_def by (simp only: obs_retryPendingRequests)
  then show ?thesis by (simp add: handleOnline_def)
qed

lemma obs_handleOffline [simp]: "handleOffline (observable s) = observable (handleOffline s)"
  by (simp add: handleOffline_def)

lemma obs_handleFailed [simp]:
  "handleFailedRequest rnd now u opts (observable s) = observable (handleFailedRequest rnd now u opts s)"
  "handleFailedXHRRequest rnd now u opts (observable s) = observable (handleFailedXHRRequest rnd now u opts s)"
  by (simp_all add: handleFailedRequest_def handleFailedXHRRequest_def)

lemma obs_wrappers [simp]:
  "interceptedFetch rnd now u init out (observable s) = observable (interceptedFetch rnd now u init out s)"
  "xhr_onerror rnd now m u d (observable s) = observable (xhr_onerror rnd now m u d s)"
  "xhr_onload rnd now m u d st (observable s) = observable (xhr_onload rnd now m u d st s)"
  by (simp_all add: interceptedFetch_def xhr_onerror_def xhr_onload_def split: outcome.splits)

lemma obs_exec: "observable (exec (mask_logging x) (observable s)) = observable (exec x s)"
  by (cases x) (simp_all add: obs_updateConfig)

lemma obs_run:
  "observable s = observable s' \<Longrightarrow> map mask_logging xs = map mask_logging ys
     \<Longrightarrow> observable (run xs s) = observable (run ys s')"
proof (induction xs arbitrary: ys s s')
  case Nil
  then show ?case by simp
next
  case (Cons x xs)
  then obtain y ys' where ys: "ys = y # ys'" "mask_logging x = mask_logging y"
    "map mask_logging xs = map mask_logging ys'" by auto
  have "observable (exec x s) = observable (exec y s')"
    using obs_exec [of x s] obs_exec [of y s'] Cons.prems(1) ys(2) by simp
  then show ?case using Cons.IH ys by simp
qed

lemma obs_create:
  "observable (createApiInterceptor (c\<lparr>opt_enableLogging := b\<rparr>) onLine)
     = observable (createApiInterceptor c onLine)"
  by (simp add: createApiInterceptor_def observable_def)

text \<open>
  Claim C9. Two interceptors that differ at most in the \<^verbatim>\<open>enableLogging\<close> flag and in what
  they have logged, taken through two runs that differ at most in the \<^verbatim>\<open>enableLogging\<close>
  values passed to \<^verbatim>\<open>updateConfig\<close>, again differ at most in the flag and the console:
  the same map of pending requests, the same request objects and promises, the same
  suspended sweeps, the same calls of continuations, callbacks and fetch in the same
  order, and the same answers of \<^verbatim>\<open>getPendingRequestsCount\<close> and \<^verbatim>\<open>getStatus\<close>.
\<close>

theorem logging_has_no_effect:
  assumes "observable s = observable s'" and "map mask_logging xs = map mask_logging ys"
  shows "observable (run xs s) = observable (run ys s') \<and>
         trace (run xs s) = trace (run ys s') \<and>
         pendingRequests (run xs s) = pendingRequests (run ys s') \<and>
         heap (run xs s) = heap (run ys s') \<and>
         promises (run xs s) = promises (run ys s') \<and>
         sweeps (run xs s) = sweeps (run ys s') \<and>
         getPendingRequestsCount (run xs s) = getPendingRequestsCount (run ys s') \<and>
         getStatus (run xs s) = getStatus (run ys s')"
proof -
  have e: "observable (run xs s) = observable (run ys s')"
    using assms by (rule obs_run)
  have same: "f (observable (run xs s)) = f (observable (run ys s'))"
    for f :: "interceptor \<Rightarrow> 'a"
    using e by simp
  have "trace (run xs s) = trace (run ys s')"
    and "pendingRequests (run xs s) = pendingRequests (run ys s')"
    and "heap (run xs s) = heap (run ys s')"
    and "promises (run xs s) = promises (run ys s')"
    and "sweeps (run xs s) = sweeps (run ys s')"
    and "isActive (run xs s) = isActive (run ys s')"
    and "isOnline (run xs s) = isOnline (run ys s')"
    using same [of trace] same [of pendingRequests] same [of heap] same [of promises]
      same [of sweeps] same [of isActive] same [of isOnline]
    by simp_all
  with e show ?thesis
    by (simp add: getPendingRequestsCount_def getStatus_def)
qed

theorem logging_has_no_effect_witness:
  "trace (run one_retry logging_interceptor)
     = [Resolve 0 fine, Fetch 0 ''/api'' api_request, OnRetry 0 None ErrNull 1 ''/api'' api_request] \<and>
   pendingRequests (run one_retry logging_interceptor) = [] \<and>
   getPendingRequestsCount (run one_retry logging_interceptor) = 0 \<and>
   length (console (run one_retry logging_interceptor)) = 4 \<and>
   console (run one_retry (createApiInterceptor no_options True)) = []"
proof -
  have 1: "observable logging_interceptor = observable (createApiInterceptor no_options True)"
    unfolding logging_interceptor_def by (rule obs_create)
  have 2: "trace (run one_retry (createApiInterceptor no_options True))
             = [Resolve 0 fine, Fetch 0 ''/api'' api_request,
                OnRetry 0 None ErrNull 1 ''/api'' api_request]"
          "pendingRequests (run one_retry (createApiInterceptor no_options True)) = []"
          "console (run one_retry (createApiInterceptor no_options True)) = []"
    by (simp_all add: one_retry_def eval_defs)
  have 3: "length (console (run one_retry logging_interceptor)) = 4"
    by (simp add: one_retry_def logging_interceptor_def eval_defs)
  from logging_has_no_effect [OF 1 refl, of one_retry] 2 3 show ?thesis
    by (simp add: getPendingRequestsCount_def)
qed

section \<open>Clearing the pending requests\<close>

lemma fold_reject_fields [simp]:
  "trace (fold (\<lambda>a s'. fst (request_reject a e s')) as s) = rev (map (\<lambda>a. Reject a e) as) @ trace s"
  "pendingRequests (fold (\<lambda>a s'. fst (request_reject a e s')) as s) = pendingRequests s"
  "heap (fold (\<lambda>a s'. fst (request_reject a e s')) as s) = heap s"
  "config (fold (\<lambda>a s'. fst (request_reject a e s')) as s) = config s"
  "next_addr (fold (\<lambda>a s'. fst (request_reject a e s')) as s) = next_addr s"
  "sweeps (fold (\<lambda>a s'. fst (request_reject a e s')) as s) = sweeps s"
  by (induction as arbitrary: s) simp_all

lemma fold_reject_cleared [simp]:
  "promises (fold (\<lambda>a s'. fst (request_reject a cleared_error s')) as s) = promises s"
  by (induction as arbitrary: s) (simp_all add: request_reject_promises cleared_error_def)

lemma clear_fields [simp]:
  "pendingRequests (clearPendingRequests s) = []"
  "trace (clearPendingRequests s)
     = rev (map (\<lambda>a. Reject a cleared_error) (map snd (pendingRequests s))) @ trace s"
  "promises (clearPendingRequests s) = promises s"
  "heap (clearPendingRequests s) = heap s"
  "config (clearPendingRequests s) = config s"
  "next_addr (clearPendingRequests s) = next_addr s"
  "sweeps (clearPendingRequests s) = sweeps s"
  by (simp_all add: clearPendingRequests_def)

lemma stop_promises: "promises (stop s) = promises s"
  by (simp add: stop_def)

text \<open>
  Claim C1, as the code has it. With the one request of \<open>one_queued\<close> pending, \<^verbatim>\<open>clearPendingRequests()\<close>, and likewise \<^verbatim>\<open>stop()\<close>, empties the map and calls
  the \<^verbatim>\<open>reject\<close> of the request with the \<^verbatim>\<open>INTERCEPTOR_CLEARED\<close> error, and nothing else;
  but that \<^verbatim>\<open>reject\<close> drops this error, so the promise that \<^verbatim>\<open>handleFailedRequest\<close> returned
  to the caller is still pending afterwards. The lemmas above give the same for every
  state: \<open>clearPendingRequests\<close> leaves every promise as it was.
\<close>

theorem clear_leaves_promise_pending:
  "getPendingRequestsCount (clearPendingRequests one_queued) = 0 \<and>
   trace (clearPendingRequests one_queued) = [Reject 0 cleared_error] \<and>
   promises one_queued 0 = Pending \<and>
   promises (clearPendingRequests one_queued) 0 = Pending \<and>
   getPendingRequestsCount (stop one_queued) = 0 \<and>
   trace (stop one_queued) = [Reject 0 cleared_error] \<and>
   promises (stop one_queued) 0 = Pending"
  by (simp add: getPendingRequestsCount_def one_queued_eval stop_def)

section \<open>Lowering the ceiling under a queued request\<close>

lemma updateConfig_fields [simp]:
  "config (updateConfig c s) = merge_config (config s) c"
  "pendingRequests (updateConfig c s) = pendingRequests s"
  "heap (updateConfig c s) = heap s"
  "promises (updateConfig c s) = promises s"
  "next_addr (updateConfig c s) = next_addr s"
  "sweeps (updateConfig c s) = sweeps s"
  "trace (updateConfig c s) = trace s"
  "isOnline (updateConfig c s) = isOnline s"
  "isActive (updateConfig c s) = isActive s"
  "retryTimer (updateConfig c s) = retryTimer s"
  "intercepting (updateConfig c s) = intercepting s"
  "listening (updateConfig c s) = listening s"
  by (simp_all add: updateConfig_def)

lemma handle_outcome_ceiling:
  assumes "maxRetries (config t) \<le> retryCount (heap t a)"
  shows "pendingRequests (fst (handle_outcome a out t))
           = AList.delete (rid (heap t a)) (pendingRequests t)"
  using assms by (simp add: handle_outcome_def Let_def split: outcome.splits)

text \<open>
  Claim C4, as the code has it. In \<open>lowered\<close> the request has \<^verbatim>\<open>retryCount\<close> 1 and
  \<^verbatim>\<open>maxRetries\<close> has been set to 1. The next timeout of the retry loop does not exhaust
  the request: it dispatches it again (\<^verbatim>\<open>onRetry\<close> with attempt 2, and a fetch), and the
  request stays in the map while the fetch is awaited; when the fetch then returns a
  response that is \<^verbatim>\<open>ok\<close>, the request is resolved with it and \<^verbatim>\<open>onMaxRetriesExceeded\<close>
  is never called.
\<close>

theorem lowered_ceiling_counterexample:
  "retryCount (heap lowered 0) = 1 \<and> maxRetries (config lowered) = 1 \<and>
   pendingRequests lowered = [(''k3j0'', 0)] \<and>
   trace (exec (Timer 10000) lowered)
     = Fetch 0 ''/api'' api_request # OnRetry 0 None ErrNull 2 ''/api'' api_request # trace lowered \<and>
   pendingRequests (exec (Timer 10000) lowered) = [(''k3j0'', 0)] \<and>
   sweeps (exec (Timer 10000) lowered) = [(0, [])] \<and>
   pendingRequests (run [Timer 10000, FetchSettled 10100 0 (Returned fine)] lowered) = [] \<and>
   filter (concludes 0) (trace (run [Timer 10000, FetchSettled 10100 0 (Returned fine)] lowered))
     = [Resolve 0 fine]"
  by (simp add: lowered_def one_failed_def in_flight_def one_queued_def eval_defs)

lemma at_ceiling_outcome:
  assumes "i < length (sweeps t)" and "sweeps t ! i = (b, rest)"
      and "maxRetries (config t) \<le> retryCount (heap t b)"
  shows "pendingRequests (fetch_settled now i out t)
           = AList.delete (rid (heap t b)) (pendingRequests t)"
    and "filter (concludes b) (trace (fetch_settled now i out t))
           = (case out of
                Threw e \<Rightarrow>
                  [Reject b e,
                   OnMaxRetriesExceeded b (onMaxRetriesExceeded (config t)) e
                     (url (heap t b)) (options (heap t b))]
              | Returned resp \<Rightarrow>
                  if ok resp \<or> \<not> retryCondition (config t) ErrNull (Some resp)
                  then [Resolve b resp]
                  else [Reject b (max_retries_error (heap t b)),
                        OnMaxRetriesExceeded b (onMaxRetriesExceeded (config t)) ErrNull
                          (url (heap t b)) (options (heap t b))])
             @ filter (concludes b) (trace t)"
proof -
  note fs = fetch_settled_after_outcome [OF assms(1) assms(2)]
  show "pendingRequests (fetch_settled now i out t)
           = AList.delete (rid (heap t b)) (pendingRequests t)"
    using assms(3) by (simp add: fs handle_outcome_ceiling)
  show "filter (concludes b) (trace (fetch_settled now i out t))
           = (case out of
                Threw e \<Rightarrow>
                  [Reject b e,
                   OnMaxRetriesExceeded b (onMaxRetriesExceeded (config t)) e
                     (url (heap t b)) (options (heap t b))]
              | Returned resp \<Rightarrow>
                  if ok resp \<or> \<not> retryCondition (config t) ErrNull (Some resp)
                  then [Resolve b resp]
                  else [Reject b (max_retries_error (heap t b)),
                        OnMaxRetriesExceeded b (onMaxRetriesExceeded (config t)) ErrNull
                          (url (heap t b)) (options (heap t b))])
             @ filter (concludes b) (trace t)"
  proof (cases out)
    case (Threw e)
    then show ?thesis using assms(3) by (simp add: fs handle_outcome_exhausted_exception)
  next
    case (Returned resp)
    show ?thesis
    proof (cases "ok resp \<or> \<not> retryCondition (config t) ErrNull (Some resp)")
      case True
      then show ?thesis using Returned by (simp add: fs handle_outcome_resolves)
    next
      case False
      then show ?thesis using Returned assms(3)
        by (simp add: fs handle_outcome_exhausted_response)
    qed
  qed
qed

text \<open>
  Claim C4, amended. When \<^verbatim>\<open>updateConfig\<close> sets \<^verbatim>\<open>maxRetries\<close> to a value that the
  \<^verbatim>\<open>retryCount\<close> of a queued request has already reached, the loop of the next sweep,
  on reaching the request when it is due, still dispatches it once more: \<^verbatim>\<open>retryCount\<close>
  is incremented, \<^verbatim>\<open>onRetry\<close> and fetch are called, and the map stays as it is while the
  fetch is awaited. The ceiling is looked at only when that fetch has settled, and then
  every outcome deletes the request from the map: an exception, or a response that is not
  \<^verbatim>\<open>ok\<close> and retryable, exhausts it (\<^verbatim>\<open>onMaxRetriesExceeded\<close>, then \<^verbatim>\<open>reject\<close>); a
  response that is \<^verbatim>\<open>ok\<close> or not retryable resolves it.
\<close>

theorem lowered_ceiling_one_more_attempt:
  assumes "opt_maxRetries c = Some n" and "n \<le> retryCount (heap s a)"
      and "delayTime (config (updateConfig c s)) \<le> now - timestamp (heap s a)"
  shows "sweep_loop now (a # rest) (updateConfig c s)
           = (dispatch now a (updateConfig c s), Some (a, rest)) \<and>
         retryCount (heap (dispatch now a (updateConfig c s)) a) = retryCount (heap s a) + 1 \<and>
         trace (dispatch now a (updateConfig c s))
           = Fetch a (url (heap s a)) (options (heap s a)) #
             OnRetry a (onRetry (config (updateConfig c s))) ErrNull (retryCount (heap s a) + 1)
               (url (heap s a)) (options (heap s a)) # trace s \<and>
         pendingRequests (dispatch now a (updateConfig c s)) = pendingRequests s \<and>
         pendingRequests
           (fetch_settled now' (length (sweeps s)) out
              (suspend (sweep_loop now (a # rest) (updateConfig c s))))
           = AList.delete (rid (heap s a)) (pendingRequests s) \<and>
         filter (concludes a)
           (trace (fetch_settled now' (length (sweeps s)) out
              (suspend (sweep_loop now (a # rest) (updateConfig c s)))))
           = (case out of
                Threw e \<Rightarrow>
                  [Reject a e,
                   OnMaxRetriesExceeded a (onMaxRetriesExceeded (config (updateConfig c s))) e
                     (url (heap s a)) (options (heap s a))]
              | Returned resp \<Rightarrow>
                  if ok resp \<or> \<not> retryCondition (config (updateConfig c s)) ErrNull (Some resp)
                  then [Resolve a resp]
                  else [Reject a (max_retries_error (heap s a)),
                        OnMaxRetriesExceeded a (onMaxRetriesExceeded (config (updateConfig c s)))
                          ErrNull (url (heap s a)) (options (heap s a))])
             @ filter (concludes a) (trace s)"
proof -
  define t where "t = suspend (sweep_loop now (a # rest) (updateConfig c s))"
  have 1: "sweep_loop now (a # rest) (updateConfig c s)
           = (dispatch now a (updateConfig c s), Some (a, rest))"
    using assms(3) by simp
  have t: "sweeps t = sweeps s @ [(a, rest)]" "config t = config (updateConfig c s)"
    "pendingRequests t = pendingRequests s"
    "heap t a = (heap s a)\<lparr>retryCount := retryCount (heap s a) + 1, timestamp := now\<rparr>"
    "filter (concludes a) (trace t) = filter (concludes a) (trace s)"
    unfolding t_def 1 by simp_all
  have i: "length (sweeps s) < length (sweeps t)" "sweeps t ! length (sweeps s) = (a, rest)"
    by (simp_all add: t)
  have "maxRetries (config t) = n"
    using assms(1) by (simp add: t merge_config_def nullish_def)
  then have m: "maxRetries (config t) \<le> retryCount (heap t a)"
    using assms(2) by (simp add: t)
  note o = at_ceiling_outcome [OF i m, of now' out]
  show ?thesis
    using 1 o unfolding t_def [symmetric]
    by (cases out) (simp_all add: t max_retries_error_def del: updateConfig_fields(1))
qed

theorem lowered_ceiling_one_more_attempt_witness:
  "sweep_loop 10000 [0] lowered = (dispatch 10000 0 lowered, Some (0, [])) \<and>
   retryCount (heap (dispatch 10000 0 lowered) 0) = 2 \<and>
   trace (dispatch 10000 0 lowered)
     = Fetch 0 ''/api'' api_request # OnRetry 0 None ErrNull 2 ''/api'' api_request #
       trace one_failed \<and>
   pendingRequests (dispatch 10000 0 lowered) = [(''k3j0'', 0)] \<and>
   pendingRequests (run [Timer 10000, FetchSettled 10100 0 (Threw failed_to_fetch)] lowered) = [] \<and>
   filter (concludes 0)
     (trace (run [Timer 10000, FetchSettled 10100 0 (Threw failed_to_fetch)] lowered))
     = [Reject 0 failed_to_fetch, OnMaxRetriesExceeded 0 None failed_to_fetch ''/api'' api_request]"
proof -
  have l: "lowered = updateConfig (no_options\<lparr>opt_maxRetries := Some 1\<rparr>) one_failed"
    by (simp add: lowered_def)
  have sl: "sweep_loop 10000 [0] lowered = (dispatch 10000 0 lowered, Some (0, []))"
    by (simp add: lowered_eval)
  have t: "retryLoop 10000 lowered = suspend (dispatch 10000 0 lowered, Some (0, []))"
    by (simp add: retryLoop_def retryPendingRequests_def lowered_eval Let_def suspend_def)
  have 1: "opt_maxRetries (no_options\<lparr>opt_maxRetries := Some 1\<rparr>) = Some 1"
    and 2: "1 \<le> retryCount (heap one_failed 0)"
    and 3: "delayTime (config (updateConfig (no_options\<lparr>opt_maxRetries := Some 1\<rparr>) one_failed))
              \<le> 10000 - timestamp (heap one_failed 0)"
    by (simp_all add: one_failed_eval merge_config_def nullish_def no_options_def)
  from lowered_ceiling_one_more_attempt [OF 1 2 3, of "[]" 10100 "Threw failed_to_fetch"]
  show ?thesis
    unfolding l [symmetric] sl
    by (simp add: t lowered_eval one_failed_eval)
qed

section \<open>Invariants of serial runs\<close>

lemma well_formed_cong:
  assumes "pendingRequests t = pendingRequests s" "sweeps t = sweeps s" "next_addr t = next_addr s"
      and "\<And>a. rid (heap t a) = rid (heap s a)"
  shows "well_formed t = well_formed s"
  using assms by (simp add: well_formed_def registry_ok_def queued_def)

lemma settled_once_cong:
  assumes "pendingRequests t = pendingRequests s" "next_addr t = next_addr s"
      and "\<And>a. filter (settles a) (trace t) = filter (settles a) (trace s)"
  shows "settled_once t = settled_once s"
  using assms by (simp add: settled_once_def queued_def fired_def)

lemma update_fresh: "k \<notin> fst ` set al \<Longrightarrow> AList.update k v al = al @ [(k, v)]"
  by (induction al) auto

lemma store_request_fields [simp]:
  "config (store_request c rnd now u opts s) = config s"
  "pendingRequests (store_request c rnd now u opts s)
     = AList.update (generateRequestId rnd now) (next_addr s) (pendingRequests s)"
  "heap (store_request c rnd now u opts s)
     = (heap s)(next_addr s := \<lparr>rid = generateRequestId rnd now, url = u, options = opts,
          retryCount = 0, timestamp = now, caller = c\<rparr>)"
  "promises (store_request c rnd now u opts s) = (promises s)(next_addr s := Pending)"
  "next_addr (store_request c rnd now u opts s) = Suc (next_addr s)"
  "sweeps (store_request c rnd now u opts s) = sweeps s"
  "trace (store_request c rnd now u opts s) = trace s"
  "isOnline (store_request c rnd now u opts s) = isOnline s"
  "isActive (store_request c rnd now u opts s) = isActive s"
  "retryTimer (store_request c rnd now u opts s) = retryTimer s"
  "intercepting (store_request c rnd now u opts s) = intercepting s"
  "listening (store_request c rnd now u opts s) = listening s"
  by (simp_all add: store_request_def Let_def)

lemma store_well_formed:
  assumes "well_formed s" and "generateRequestId rnd now \<notin> fst ` set (pendingRequests s)"
  shows "well_formed (store_request c rnd now u opts s)"
proof -
  have "\<forall>(k, b) \<in> set (pendingRequests s). b < next_addr s"
    using assms(1) by (auto simp: well_formed_def registry_ok_def)
  then have "next_addr s \<notin> snd ` set (pendingRequests s)" by force
  then show ?thesis
    using assms
    by (auto simp: well_formed_def registry_ok_def queued_def update_fresh less_Suc_eq)
qed

lemma store_settled_once:
  assumes "well_formed s" and "settled_once s"
      and "generateRequestId rnd now \<notin> fst ` set (pendingRequests s)"
  shows "settled_once (store_request c rnd now u opts s)"
proof -
  have "\<forall>(k, b) \<in> set (pendingRequests s). b < next_addr s"
    using assms(1) by (auto simp: well_formed_def registry_ok_def)
  then have "next_addr s \<notin> snd ` set (pendingRequests s)" by force
  then show ?thesis
    using assms(2,3)
    by (auto simp: settled_once_def queued_def fired_def update_fresh less_Suc_eq)
qed

lemma sweep_continue_well_formed:
  assumes "well_formed t" and "sweeps t = []" and "set as \<subseteq> queued t" and "distinct as"
  shows "well_formed (suspend (sweep_loop now as t))"
proof (rule sweep_loop_cases [of now as t])
  assume "sweep_loop now as t = (t, None)"
  then show ?thesis using assms(1) by (simp add: suspend_def)
next
  fix pre c rest
  assume sl: "sweep_loop now as t = (dispatch now c t, Some (c, rest))" and as: "as = pre @ c # rest"
  have "c \<in> queued t" "set rest \<subseteq> queued t" "c \<notin> set rest" "distinct rest"
    using assms(3,4) as by auto
  then show ?thesis
    using assms(1,2) unfolding sl
    by (auto simp: well_formed_def registry_ok_def queued_def)
qed

lemma sweep_continue_settled_once:
  assumes "settled_once t"
  shows "settled_once (suspend (sweep_loop now as t))"
proof (rule sweep_loop_cases [of now as t])
  assume "sweep_loop now as t = (t, None)"
  then show ?thesis using assms(1) by (simp add: suspend_def)
next
  fix pre c rest
  assume sl: "sweep_loop now as t = (dispatch now c t, Some (c, rest))"
  show ?thesis
    using assms unfolding sl
    by (simp add: settled_once_def queued_def fired_def)
qed

lemma handle_outcome_effect:
  "(fst (handle_outcome a out s) = s \<and> retryCount (heap s a) < maxRetries (config s)) \<or>
   (pendingRequests (fst (handle_outcome a out s))
      = AList.delete (rid (heap s a)) (pendingRequests s) \<and>
    (\<forall>b. fired b (fst (handle_outcome a out s)) = fired b s + (if b = a then 1 else 0)))"
proof (cases out)
  case (Returned resp)
  show ?thesis
  proof (cases "ok resp \<or> \<not> retryCondition (config s) ErrNull (Some resp)")
    case True
    then show ?thesis unfolding Returned
      by (simp add: handle_outcome_resolves fired_def)
  next
    case False
    show ?thesis
    proof (cases "retryCount (heap s a) < maxRetries (config s)")
      case True
      with False show ?thesis unfolding Returned
        by (simp add: handle_outcome_requeued_response)
    next
      case c: False
      with False show ?thesis unfolding Returned
        by (simp add: handle_outcome_exhausted_response fired_def)
    qed
  qed
next
  case (Threw e)
  show ?thesis
  proof (cases "retryCount (heap s a) < maxRetries (config s)")
    case True
    show ?thesis
    proof (cases "retryCondition (config s) e None")
      case r: True
      with True show ?thesis unfolding Threw
        by (simp add: handle_outcome_requeued_exception)
    next
      case r: False
      with True show ?thesis unfolding Threw
        by (simp add: handle_outcome_refused fired_def)
    qed
  next
    case False
    then show ?thesis unfolding Threw
      by (simp add: handle_outcome_exhausted_exception fired_def)
  qed
qed

lemma queued_delete:
  assumes "well_formed s" and "c \<in> queued s"
  shows "snd ` set (AList.delete (rid (heap s c)) (pendingRequests s)) = queued s - {c}"
proof (rule set_eqI)
  fix b
  have in_reg: "(rid (heap s c), c) \<in> set (pendingRequests s)"
    using assms by (auto simp: well_formed_def registry_ok_def queued_def)
  have keys: "distinct (map fst (pendingRequests s))"
    using assms(1) by (simp add: well_formed_def)
  have ids: "k = rid (heap s b')" if "(k, b') \<in> set (pendingRequests s)" for k b'
    using that assms(1) by (auto simp: well_formed_def registry_ok_def)
  show "b \<in> snd ` set (AList.delete (rid (heap s c)) (pendingRequests s)) \<longleftrightarrow> b \<in> queued s - {c}"
  proof
    assume "b \<in> snd ` set (AList.delete (rid (heap s c)) (pendingRequests s))"
    then obtain k where k: "(k, b) \<in> set (pendingRequests s)" "k \<noteq> rid (heap s c)"
      by (auto simp: AList.delete_eq)
    then have "b \<noteq> c" using ids by blast
    then show "b \<in> queued s - {c}" using k(1) by (force simp: queued_def)
  next
    assume "b \<in> queued s - {c}"
    then obtain k where k: "(k, b) \<in> set (pendingRequests s)" "b \<noteq> c"
      by (auto simp: queued_def)
    have "k \<noteq> rid (heap s c)"
    proof
      assume "k = rid (heap s c)"
      then have "b = c" using k(1) in_reg keys by (metis eq_key_imp_eq_value)
      then show False using k(2) by simp
    qed
    then show "b \<in> snd ` set (AList.delete (rid (heap s c)) (pendingRequests s))"
      using k(1) by (force simp: AList.delete_eq)
  qed
qed

lemma outcome_summary:
  fixes out
  assumes "well_formed s" and "sweeps s = [(c, rest)]"
  defines "s1 \<equiv> fst (handle_outcome c out (s\<lparr>sweeps := []\<rparr>))"
  shows "sweeps s1 = [] \<and> heap s1 = heap s \<and> config s1 = config s \<and> next_addr s1 = next_addr s"
    and "(pendingRequests s1 = pendingRequests s \<and> (\<forall>b. fired b s1 = fired b s) \<and>
          retryCount (heap s c) < maxRetries (config s)) \<or>
         (queued s1 = queued s - {c} \<and> set (pendingRequests s1) \<subseteq> set (pendingRequests s) \<and>
          distinct (map fst (pendingRequests s1)) \<and> distinct (map snd (pendingRequests s1)) \<and>
          (\<forall>b. fired b s1 = fired b s + (if b = c then 1 else 0)))"
proof -
  show "sweeps s1 = [] \<and> heap s1 = heap s \<and> config s1 = config s \<and> next_addr s1 = next_addr s"
    by (simp add: s1_def)
  have c: "c \<in> queued s" using assms(1,2) by (simp add: well_formed_def)
  have f0: "fired b (s\<lparr>sweeps := []\<rparr>) = fired b s" for b by (simp add: fired_def)
  from handle_outcome_effect [of c out "s\<lparr>sweeps := []\<rparr>"]
  show "(pendingRequests s1 = pendingRequests s \<and> (\<forall>b. fired b s1 = fired b s) \<and>
          retryCount (heap s c) < maxRetries (config s)) \<or>
         (queued s1 = queued s - {c} \<and> set (pendingRequests s1) \<subseteq> set (pendingRequests s) \<and>
          distinct (map fst (pendingRequests s1)) \<and> distinct (map snd (pendingRequests s1)) \<and>
          (\<forall>b. fired b s1 = fired b s + (if b = c then 1 else 0)))"
  proof
    assume "fst (handle_outcome c out (s\<lparr>sweeps := []\<rparr>)) = s\<lparr>sweeps := []\<rparr> \<and>
            retryCount (heap (s\<lparr>sweeps := []\<rparr>) c) < maxRetries (config (s\<lparr>sweeps := []\<rparr>))"
    then have "s1 = s\<lparr>sweeps := []\<rparr>" "retryCount (heap s c) < maxRetries (config s)"
      by (simp_all add: s1_def)
    then show ?thesis by (simp add: f0)
  next
    assume "pendingRequests (fst (handle_outcome c out (s\<lparr>sweeps := []\<rparr>)))
              = AList.delete (rid (heap (s\<lparr>sweeps := []\<rparr>) c)) (pendingRequests (s\<lparr>sweeps := []\<rparr>)) \<and>
            (\<forall>b. fired b (fst (handle_outcome c out (s\<lparr>sweeps := []\<rparr>)))
                   = fired b (s\<lparr>sweeps := []\<rparr>) + (if b = c then 1 else 0))"
    then have p: "pendingRequests s1 = AList.delete (rid (heap s c)) (pendingRequests s)"
      and f: "\<forall>b. fired b s1 = fired b s + (if b = c then 1 else 0)"
      by (simp_all add: s1_def f0)
    have "queued s1 = queued s - {c}"
      using queued_delete [OF assms(1) c] p by (simp add: queued_def)
    moreover have "set (pendingRequests s1) \<subseteq> set (pendingRequests s)"
      unfolding p by (auto simp: AList.delete_eq)
    moreover have "distinct (map fst (pendingRequests s1))"
      unfolding p using assms(1) by (simp add: well_formed_def distinct_delete)
    moreover have "distinct (map snd (pendingRequests s1))"
      unfolding p using assms(1) by (simp add: well_formed_def AList.delete_eq distinct_map_filter)
    ultimately show ?thesis using f by blast
  qed
qed

lemma outcome_well_formed:
  fixes out
  assumes "well_formed s" and "sweeps s = [(c, rest)]"
  defines "s1 \<equiv> fst (handle_outcome c out (s\<lparr>sweeps := []\<rparr>))"
  shows "well_formed s1 \<and> sweeps s1 = [] \<and> set rest \<subseteq> queued s1 \<and> distinct rest"
proof -
  have r: "c \<in> queued s" "set rest \<subseteq> queued s" "c \<notin> set rest" "distinct rest"
    using assms(1,2) by (auto simp: well_formed_def)
  have ok: "registry_ok s" "distinct (map fst (pendingRequests s))"
    "distinct (map snd (pendingRequests s))"
    using assms(1) by (simp_all add: well_formed_def)
  note sm = outcome_summary [OF assms(1,2), of out, folded s1_def]
  have f: "sweeps s1 = []" "heap s1 = heap s" "next_addr s1 = next_addr s"
    using sm(1) by simp_all
  from sm(2) have "registry_ok s1 \<and> distinct (map fst (pendingRequests s1)) \<and>
      distinct (map snd (pendingRequests s1)) \<and> set rest \<subseteq> queued s1"
  proof
    assume a: "pendingRequests s1 = pendingRequests s \<and> (\<forall>b. fired b s1 = fired b s) \<and>
          retryCount (heap s c) < maxRetries (config s)"
    then have "registry_ok s1" using ok(1) f by (simp add: registry_ok_def)
    then show ?thesis using a ok r by (simp add: queued_def)
  next
    assume b: "queued s1 = queued s - {c} \<and> set (pendingRequests s1) \<subseteq> set (pendingRequests s) \<and>
          distinct (map fst (pendingRequests s1)) \<and> distinct (map snd (pendingRequests s1)) \<and>
          (\<forall>b. fired b s1 = fired b s + (if b = c then 1 else 0))"
    then have "registry_ok s1" using ok(1) f unfolding registry_ok_def by auto
    moreover have "set rest \<subseteq> queued s1" using b r by auto
    ultimately show ?thesis using b by simp
  qed
  then show ?thesis using f r by (simp add: well_formed_def)
qed

lemma outcome_settled_once:
  fixes out
  assumes "well_formed s" and "settled_once s" and "sweeps s = [(c, rest)]"
  defines "s1 \<equiv> fst (handle_outcome c out (s\<lparr>sweeps := []\<rparr>))"
  shows "settled_once s1"
proof -
  have r: "c \<in> queued s" "c < next_addr s"
    using assms(1,3) by (auto simp: well_formed_def registry_ok_def queued_def)
  note sm = outcome_summary [OF assms(1,3), of out, folded s1_def]
  have f: "next_addr s1 = next_addr s" using sm(1) by simp
  from sm(2) show ?thesis
  proof
    assume a: "pendingRequests s1 = pendingRequests s \<and> (\<forall>b. fired b s1 = fired b s) \<and>
          retryCount (heap s c) < maxRetries (config s)"
    then have "queued s1 = queued s" by (simp add: queued_def)
    then show ?thesis using a f assms(2) by (simp add: settled_once_def)
  next
    assume b: "queued s1 = queued s - {c} \<and> set (pendingRequests s1) \<subseteq> set (pendingRequests s) \<and>
          distinct (map fst (pendingRequests s1)) \<and> distinct (map snd (pendingRequests s1)) \<and>
          (\<forall>b. fired b s1 = fired b s + (if b = c then 1 else 0))"
    show ?thesis
      unfolding settled_once_def
    proof
      fix a
      have "fired a s = (if a < next_addr s \<and> a \<notin> queued s then 1 else 0)"
        using assms(2) by (simp add: settled_once_def)
      moreover have "fired a s1 = fired a s + (if a = c then 1 else 0)" using b by simp
      ultimately show "fired a s1 = (if a < next_addr s1 \<and> a \<notin> queued s1 then 1 else 0)"
        using b f r by (cases "a = c") simp_all
    qed
  qed
qed

lemma fetch_settled_cases:
  assumes "length (sweeps s) \<le> 1"
  obtains (nothing) "fetch_settled now i out s = s"
  | (ended) c rest where "sweeps s = [(c, rest)]"
      "fetch_settled now i out s = fst (handle_outcome c out (s\<lparr>sweeps := []\<rparr>))"
  | (continued) c rest where "sweeps s = [(c, rest)]"
      "fetch_settled now i out s
         = suspend (sweep_loop now rest (fst (handle_outcome c out (s\<lparr>sweeps := []\<rparr>))))"
proof (cases "i < length (sweeps s)")
  case False
  then have "fetch_settled now i out s = s" by (simp add: fetch_settled_def)
  then show ?thesis by (rule nothing)
next
  case True
  with assms have i: "i = 0" and "length (sweeps s) = 1" by simp_all
  then obtain c rest where sw: "sweeps s = [(c, rest)]"
    by (cases "sweeps s") auto
  show ?thesis
  proof (cases "snd (handle_outcome c out (s\<lparr>sweeps := []\<rparr>))")
    case True
    with sw i have "fetch_settled now i out s = fst (handle_outcome c out (s\<lparr>sweeps := []\<rparr>))"
      by (simp add: fetch_settled_def Let_def)
    with sw show ?thesis by (rule ended)
  next
    case False
    with sw i have "fetch_settled now i out s
         = suspend (sweep_loop now rest (fst (handle_outcome c out (s\<lparr>sweeps := []\<rparr>))))"
      by (simp add: fetch_settled_def Let_def)
    with sw show ?thesis by (rule continued)
  qed
qed

lemma fetch_settled_well_formed:
  assumes "well_formed s"
  shows "well_formed (fetch_settled now i out s)"
proof (rule fetch_settled_cases [of s now i out])
  show "length (sweeps s) \<le> 1" using assms by (simp add: well_formed_def)
next
  assume "fetch_settled now i out s = s"
  then show ?thesis using assms by simp
next
  fix c rest
  assume sw: "sweeps s = [(c, rest)]"
    and fs: "fetch_settled now i out s = fst (handle_outcome c out (s\<lparr>sweeps := []\<rparr>))"
  show ?thesis using outcome_well_formed [OF assms sw, of out] fs by simp
next
  fix c rest
  assume sw: "sweeps s = [(c, rest)]"
    and fs: "fetch_settled now i out s
         = suspend (sweep_loop now rest (fst (handle_outcome c out (s\<lparr>sweeps := []\<rparr>))))"
  show ?thesis
    using outcome_well_formed [OF assms sw, of out] unfolding fs
    by (simp add: sweep_continue_well_formed)
qed

lemma fetch_settled_settled_once:
  assumes "well_formed s" and "settled_once s"
  shows "settled_once (fetch_settled now i out s)"
proof (rule fetch_settled_cases [of s now i out])
  show "length (sweeps s) \<le> 1" using assms(1) by (simp add: well_formed_def)
next
  assume "fetch_settled now i out s = s"
  then show ?thesis using assms by simp
next
  fix c rest
  assume sw: "sweeps s = [(c, rest)]"
    and fs: "fetch_settled now i out s = fst (handle_outcome c out (s\<lparr>sweeps := []\<rparr>))"
  show ?thesis using outcome_settled_once [OF assms sw, of out] fs by simp
next
  fix c rest
  assume sw: "sweeps s = [(c, rest)]"
    and fs: "fetch_settled now i out s
         = suspend (sweep_loop now rest (fst (handle_outcome c out (s\<lparr>sweeps := []\<rparr>))))"
  show ?thesis
    using outcome_settled_once [OF assms sw, of out] unfolding fs
    by (rule sweep_continue_settled_once)
qed

lemma inv_log [simp]:
  "well_formed (log m s) = well_formed s"
  "settled_once (log m s) = settled_once s"
  by (simp_all add: well_formed_def registry_ok_def queued_def settled_once_def fired_def)

lemma inv_emit_other:
  assumes "\<And>a. \<not> settles a e"
  shows "well_formed (emit e s) = well_formed s"
    and "settled_once (emit e s) = settled_once s"
  using assms
  by (simp_all add: well_formed_def registry_ok_def queued_def settled_once_def fired_def)

lemma inv_flags [simp]:
  "well_formed (s\<lparr>isActive := v\<rparr>) = well_formed s"
  "well_formed (s\<lparr>isOnline := v\<rparr>) = well_formed s"
  "well_formed (s\<lparr>retryTimer := v\<rparr>) = well_formed s"
  "well_formed (s\<lparr>intercepting := v\<rparr>) = well_formed s"
  "well_formed (s\<lparr>listening := v\<rparr>) = well_formed s"
  "settled_once (s\<lparr>isActive := v\<rparr>) = settled_once s"
  "settled_once (s\<lparr>isOnline := v\<rparr>) = settled_once s"
  "settled_once (s\<lparr>retryTimer := v\<rparr>) = settled_once s"
  "settled_once (s\<lparr>intercepting := v\<rparr>) = settled_once s"
  "settled_once (s\<lparr>listening := v\<rparr>) = settled_once s"
  by (simp_all add: well_formed_def registry_ok_def queued_def settled_once_def fired_def)

lemma retry_invariants:
  assumes "well_formed s" and "sweeps s = []"
  shows "well_formed (retryPendingRequests now s)"
    and "settled_once s \<Longrightarrow> settled_once (retryPendingRequests now s)"
proof -
  have q: "set (map snd (pendingRequests s)) \<subseteq> queued s" "distinct (map snd (pendingRequests s))"
    using assms(1) by (simp_all add: queued_def well_formed_def)
  show "well_formed (retryPendingRequests now s)"
    unfolding retryPendingRequests_def
    using assms q by (rule sweep_continue_well_formed)
  show "settled_once s \<Longrightarrow> settled_once (retryPendingRequests now s)"
    unfolding retryPendingRequests_def by (rule sweep_continue_settled_once)
qed

lemma rejected_once:
  "distinct as \<Longrightarrow>
     length (filter (settles a) (rev (map (\<lambda>b. Reject b e) as))) = (if a \<in> set as then 1 else 0)"
  by (induction as) auto

lemma clear_invariants:
  assumes "well_formed s" and "sweeps s = []"
  shows "well_formed (clearPendingRequests s)"
    and "settled_once s \<Longrightarrow> settled_once (clearPendingRequests s)"
proof -
  show "well_formed (clearPendingRequests s)"
    using assms by (simp add: well_formed_def registry_ok_def)
  have d: "distinct (map snd (pendingRequests s))"
    and lt: "\<And>a. a \<in> queued s \<Longrightarrow> a < next_addr s"
    using assms(1) by (auto simp: well_formed_def registry_ok_def queued_def)
  show "settled_once (clearPendingRequests s)" if so: "settled_once s"
    unfolding settled_once_def
  proof
    fix a
    have "fired a (clearPendingRequests s) = (if a \<in> queued s then 1 else 0) + fired a s"
      using rejected_once [OF d, of a cleared_error] by (simp add: fired_def queued_def)
    moreover have "fired a s = (if a < next_addr s \<and> a \<notin> queued s then 1 else 0)"
      using so by (simp add: settled_once_def)
    moreover have "queued (clearPendingRequests s) = {}" by (simp add: queued_def)
    ultimately show "fired a (clearPendingRequests s)
        = (if a < next_addr (clearPendingRequests s) \<and> a \<notin> queued (clearPendingRequests s)
           then 1 else 0)"
      using lt [of a] by auto
  qed
qed

lemma updateConfig_invariants [simp]:
  "well_formed (updateConfig c s) = well_formed s"
  "settled_once (updateConfig c s) = settled_once s"
  by (simp_all add: well_formed_def registry_ok_def settled_once_def fired_def queued_def)

lemma retryLoop_invariants:
  assumes "well_formed s" and "isOnline s \<and> pendingRequests s \<noteq> [] \<longrightarrow> sweeps s = []"
  shows "well_formed (retryLoop now s)"
    and "settled_once s \<Longrightarrow> settled_once (retryLoop now s)"
  using assms retry_invariants [of s now]
  by (simp_all add: retryLoop_def Let_def)

lemma start_invariants:
  assumes "well_formed s" and "starts_sweep (Start now) s \<longrightarrow> sweeps s = []"
  shows "well_formed (start now s)"
    and "settled_once s \<Longrightarrow> settled_once (start now s)"
  using assms retryLoop_invariants [of "s\<lparr>intercepting := True, listening := True\<rparr>" now]
  by (simp_all add: start_def)

lemma stop_invariants:
  assumes "well_formed s" and "clears Stop s \<longrightarrow> sweeps s = []"
  shows "well_formed (stop s)"
    and "settled_once s \<Longrightarrow> settled_once (stop s)"
  using assms
    clear_invariants [of "s\<lparr>intercepting := False, retryTimer := False, listening := False\<rparr>"]
  by (simp_all add: stop_def)

lemma handleOnline_invariants:
  assumes "well_formed s" and "sweeps s = []"
  shows "well_formed (handleOnline now s)"
    and "settled_once s \<Longrightarrow> settled_once (handleOnline now s)"
  using assms
    retry_invariants [of "(log [Txt ''Network back online - retrying pending requests''] s)
                            \<lparr>isOnline := True\<rparr>" now]
  by (simp_all add: handleOnline_def)

lemma handleOffline_invariants [simp]:
  "well_formed (handleOffline s) = well_formed s"
  "settled_once (handleOffline s) = settled_once s"
  by (simp_all add: handleOffline_def)

lemma handleFailed_invariants:
  assumes "well_formed s" and "generateRequestId rnd now \<notin> fst ` set (pendingRequests s)"
  shows "well_formed (handleFailedRequest rnd now u opts s)"
    and "settled_once s \<Longrightarrow> settled_once (handleFailedRequest rnd now u opts s)"
    and "well_formed (handleFailedXHRRequest rnd now u opts s)"
    and "settled_once s \<Longrightarrow> settled_once (handleFailedXHRRequest rnd now u opts s)"
  using assms
  by (simp_all add: handleFailedRequest_def handleFailedXHRRequest_def store_well_formed
        store_settled_once)

lemma stored_request [simp]:
  "next_addr (handleFailedRequest rnd now u opts s) = Suc (next_addr s)"
  "rid (heap (handleFailedRequest rnd now u opts s) (next_addr s)) = generateRequestId rnd now"
  "next_addr (handleFailedXHRRequest rnd now u opts s) = Suc (next_addr s)"
  "rid (heap (handleFailedXHRRequest rnd now u opts s) (next_addr s)) = generateRequestId rnd now"
  by (simp_all add: handleFailedRequest_def handleFailedXHRRequest_def)

lemma wrapper_cases:
  "interceptedFetch rnd now u init out s = handleFailedRequest rnd now u init s \<or>
   interceptedFetch rnd now u init out s = emit (PassThrough out) s"
  "xhr_onerror rnd now m u d s
     = handleFailedXHRRequest rnd now u
         \<lparr>http_method = Some m, req_body = d, headers = extractXHRHeaders\<rparr> s \<or>
   xhr_onerror rnd now m u d s = emit XhrOriginalOnError s"
  "xhr_onload rnd now m u d st s
     = handleFailedXHRRequest rnd now u
         \<lparr>http_method = Some m, req_body = d, headers = extractXHRHeaders\<rparr> s \<or>
   xhr_onload rnd now m u d st s = emit XhrOriginalOnLoad s"
  by (simp_all add: interceptedFetch_def xhr_onerror_def xhr_onload_def split: outcome.splits)

lemma stores_or_passes:
  assumes "t = handleFailedRequest rnd now u opts s \<or>
           t = handleFailedXHRRequest rnd now u opts s \<or>
           t = emit (PassThrough out) s \<or> t = emit XhrOriginalOnError s \<or>
           t = emit XhrOriginalOnLoad s"
      and "well_formed s"
      and "next_addr t \<noteq> next_addr s \<longrightarrow> rid (heap t (next_addr s)) \<notin> fst ` set (pendingRequests s)"
  shows "well_formed t"
    and "settled_once s \<Longrightarrow> settled_once t"
proof -
  from assms(1) consider
      (stored) "t = handleFailedRequest rnd now u opts s \<or> t = handleFailedXHRRequest rnd now u opts s"
    | (passed) e where "t = emit e s" "\<And>a. \<not> settles a e"
    by auto
  note c = this
  show "well_formed t"
  proof (cases rule: c)
    case stored
    then show ?thesis using assms(2,3) by (auto simp: handleFailed_invariants)
  next
    case passed
    then show ?thesis using assms(2) by (simp add: inv_emit_other)
  qed
  show "settled_once t" if "settled_once s"
  proof (cases rule: c)
    case stored
    then show ?thesis using assms(2,3) that by (auto simp: handleFailed_invariants)
  next
    case passed
    then show ?thesis using that by (simp add: inv_emit_other)
  qed
qed

lemma wrapper_invariants:
  assumes "well_formed s" and "admissible x s"
      and "x = CallFetch rnd now u init out \<or> x = XhrError rnd now m u d \<or>
           x = XhrLoad rnd now m u d st"
  shows "well_formed (exec x s)"
    and "settled_once s \<Longrightarrow> settled_once (exec x s)"
proof -
  have fresh: "next_addr (exec x s) \<noteq> next_addr s \<longrightarrow>
                 rid (heap (exec x s) (next_addr s)) \<notin> fst ` set (pendingRequests s)"
    using assms(2) by (simp add: admissible_def)
  have "\<exists>opts rnd' now' u'. exec x s = handleFailedRequest rnd' now' u' opts s \<or>
           exec x s = handleFailedXHRRequest rnd' now' u' opts s \<or>
           exec x s = emit (PassThrough out) s \<or> exec x s = emit XhrOriginalOnError s \<or>
           exec x s = emit XhrOriginalOnLoad s"
    using assms(3) wrapper_cases(1) [of rnd now u init out s] wrapper_cases(2) [of rnd now m u d s]
      wrapper_cases(3) [of rnd now m u d st s]
    by (elim disjE) (simp; blast)+
  then obtain opts rnd' now' u' where
    "exec x s = handleFailedRequest rnd' now' u' opts s \<or>
     exec x s = handleFailedXHRRequest rnd' now' u' opts s \<or>
     exec x s = emit (PassThrough out) s \<or> exec x s = emit XhrOriginalOnError s \<or>
     exec x s = emit XhrOriginalOnLoad s"
    by blast
  note e = stores_or_passes [OF this assms(1) fresh]
  show "well_formed (exec x s)" by (rule e(1))
  show "settled_once s \<Longrightarrow> settled_once (exec x s)" by (rule e(2))
qed

lemma exec_well_formed:
  assumes "well_formed s" and "admissible x s"
  shows "well_formed (exec x s)"
proof (cases "\<exists>rnd now u init out m d st.
         x = CallFetch rnd now u init out \<or> x = XhrError rnd now m u d \<or> x = XhrLoad rnd now m u d st")
  case True
  then show ?thesis using wrapper_invariants(1) [OF assms] by blast
next
  case False
  then show ?thesis
    using assms
    by (cases x)
       (simp_all add: admissible_def start_invariants stop_invariants clear_invariants
          retryLoop_invariants handleOnline_invariants
          fetch_settled_well_formed)
qed

lemma exec_settled_once:
  assumes "well_formed s" and "settled_once s" and "admissible x s"
  shows "settled_once (exec x s)"
proof (cases "\<exists>rnd now u init out m d st.
         x = CallFetch rnd now u init out \<or> x = XhrError rnd now m u d \<or> x = XhrLoad rnd now m u d st")
  case True
  then show ?thesis using wrapper_invariants(2) [OF assms(1,3) _ assms(2)] by blast
next
  case False
  then show ?thesis
    using assms
    by (cases x)
       (simp_all add: admissible_def start_invariants stop_invariants clear_invariants
          retryLoop_invariants handleOnline_invariants
          fetch_settled_settled_once)
qed

lemma run_invariants:
  assumes "serial xs s" and "well_formed s"
  shows "well_formed (run xs s)"
    and "settled_once s \<Longrightarrow> settled_once (run xs s)"
  using assms
  by (induction xs arbitrary: s) (simp_all add: exec_well_formed exec_settled_once)

lemma created_invariants:
  "well_formed (createApiInterceptor c onLine)"
  "settled_once (createApiInterceptor c onLine)"
  by (simp_all add: createApiInterceptor_def well_formed_def registry_ok_def settled_once_def
        fired_def queued_def)

section \<open>The keys of the map are the ids of its requests\<close>

text \<open>
  \<open>registry_ok\<close> holds in every state that any run, serial or not, reaches from a new
  interceptor.
\<close>

lemma set_update_subset: "set (AList.update k v al) \<subseteq> insert (k, v) (set al)"
  by (induction al) auto

lemma registry_ok_cong:
  assumes "set (pendingRequests t) \<subseteq> set (pendingRequests s)" and "next_addr t = next_addr s"
      and "\<And>a. rid (heap t a) = rid (heap s a)" and "registry_ok s"
  shows "registry_ok t"
  using assms unfolding registry_ok_def by auto

lemma registry_ok_store:
  assumes "registry_ok s"
  shows "registry_ok (store_request c rnd now u opts s)"
proof -
  have "b < next_addr s \<and> rid (heap s b) = k" if "(k, b) \<in> set (pendingRequests s)" for k b
    using assms that by (auto simp: registry_ok_def)
  then show ?thesis
    using set_update_subset [of "generateRequestId rnd now" "next_addr s" "pendingRequests s"]
    unfolding registry_ok_def by (auto simp: less_Suc_eq)
qed

lemma registry_ok_sweep:
  assumes "registry_ok s"
  shows "registry_ok (suspend (sweep_loop now as s))"
proof (rule sweep_loop_cases [of now as s])
  assume "sweep_loop now as s = (s, None)"
  then show ?thesis using assms by (simp add: suspend_def)
next
  fix pre c rest
  assume sl: "sweep_loop now as s = (dispatch now c s, Some (c, rest))"
  show ?thesis
    unfolding sl by (rule registry_ok_cong [OF _ _ _ assms]) simp_all
qed

lemma registry_ok_outcome:
  assumes "registry_ok s"
  shows "registry_ok (fst (handle_outcome a out s))"
proof -
  have "set (pendingRequests (fst (handle_outcome a out s))) \<subseteq> set (pendingRequests s)"
    using handle_outcome_effect [of a out s] by (auto simp: AList.delete_eq)
  then show ?thesis by (rule registry_ok_cong) (simp_all add: assms)
qed

lemma registry_ok_fetch_settled:
  assumes "registry_ok s"
  shows "registry_ok (fetch_settled now i out s)"
proof -
  have "registry_ok (s\<lparr>sweeps := w\<rparr>)" for w
    using assms by (simp add: registry_ok_def)
  then show ?thesis
    using assms by (simp add: fetch_settled_def Let_def registry_ok_outcome registry_ok_sweep)
qed

lemma registry_ok_frame [simp]:
  "registry_ok (log m s) = registry_ok s"
  "registry_ok (emit e s) = registry_ok s"
  "registry_ok (s\<lparr>isActive := v\<rparr>) = registry_ok s"
  "registry_ok (s\<lparr>isOnline := v\<rparr>) = registry_ok s"
  "registry_ok (s\<lparr>retryTimer := v\<rparr>) = registry_ok s"
  "registry_ok (s\<lparr>intercepting := v\<rparr>) = registry_ok s"
  "registry_ok (s\<lparr>listening := v\<rparr>) = registry_ok s"
  "registry_ok (updateConfig c s) = registry_ok s"
  "registry_ok (clearPendingRequests s)"
  by (simp_all add: registry_ok_def)

lemma registry_ok_exec:
  assumes "registry_ok s"
  shows "registry_ok (exec x s)"
  using assms
  by (cases x)
     (simp_all add: start_def stop_def retryLoop_def handleOnline_def handleOffline_def Let_def
        retryPendingRequests_def registry_ok_sweep registry_ok_fetch_settled interceptedFetch_def
        xhr_onerror_def xhr_onload_def handleFailedRequest_def handleFailedXHRRequest_def
        registry_ok_store split: outcome.splits)

lemma registry_ok_run:
  "registry_ok s \<Longrightarrow> registry_ok (run xs s)"
  by (induction xs arbitrary: s) (simp_all add: registry_ok_exec)

lemma registry_ok_created: "registry_ok (run xs (createApiInterceptor c onLine))"
  by (rule registry_ok_run) (simp add: registry_ok_def createApiInterceptor_def)

section \<open>The invariant of the retry count\<close>



lemma ceiling_frame [simp]:
  "within_ceiling (log m s) = within_ceiling s"
  "within_ceiling (emit e s) = within_ceiling s"
  "within_ceiling (s\<lparr>isActive := v\<rparr>) = within_ceiling s"
  "within_ceiling (s\<lparr>isOnline := v\<rparr>) = within_ceiling s"
  "within_ceiling (s\<lparr>retryTimer := v\<rparr>) = within_ceiling s"
  "within_ceiling (s\<lparr>intercepting := v\<rparr>) = within_ceiling s"
  "within_ceiling (s\<lparr>listening := v\<rparr>) = within_ceiling s"
  by (simp_all add: within_ceiling_def queued_def)
















section \<open>Each request is settled once\<close>

text \<open>
  Claim C2, as the code has it. (1) \<^verbatim>\<open>clearPendingRequests()\<close> while the fetch of a sweep
  is awaited: the request of \<open>in_flight\<close> is rejected with the cleared error and leaves the
  map; when the fetch returns, the sweep calls its \<^verbatim>\<open>resolve\<close> as well, so both
  continuations have been called, the second one for a request that is no longer in the
  map. (2) A second timeout while the first fetch is still awaited dispatches the same
  request again, and each of the two sweeps resolves it. (3) A second request stored
  under the id of the first replaces it in the map: the first leaves the map and no
  continuation of it is ever called.
\<close>

theorem settled_twice_counterexample:
  "pendingRequests (exec Clear in_flight) = [] \<and>
   filter (settles 0) (trace (run [Clear, FetchSettled 5100 0 (Returned fine)] in_flight))
     = [Resolve 0 fine, Reject 0 cleared_error] \<and>
   fired 0 (run [Clear, FetchSettled 5100 0 (Returned fine)] in_flight) = 2 \<and>
   filter (settles 0)
     (trace (run [Timer 10000, FetchSettled 10100 0 (Returned fine),
                  FetchSettled 10200 0 (Returned not_found)] in_flight))
     = [Resolve 0 not_found, Resolve 0 fine] \<and>
   fired 0 (run [CallFetch ''k3j'' 0 ''/other'' api_request (Returned unavailable),
                 Timer 5000, FetchSettled 5100 0 (Returned fine)] one_queued) = 0 \<and>
   pendingRequests (run [CallFetch ''k3j'' 0 ''/other'' api_request (Returned unavailable),
                 Timer 5000, FetchSettled 5100 0 (Returned fine)] one_queued) = []"
  by (simp add: fired_def in_flight_def one_queued_def eval_defs)

text \<open>
  Claim C2, amended. In every state that a serial run reaches from a new interceptor, every
  request stored so far is either still in the map with none of its continuations called,
  or no longer in the map with exactly one call of one of its two continuations. Every
  prefix of a serial run is serial, so this holds after each step: the step that calls a
  continuation of a request is the step that takes it out of the map.
\<close>

theorem settled_once_when_serial:
  assumes "serial xs (createApiInterceptor c onLine)"
  shows "\<forall>a < next_addr (run xs (createApiInterceptor c onLine)).
           (a \<in> queued (run xs (createApiInterceptor c onLine)) \<and>
            fired a (run xs (createApiInterceptor c onLine)) = 0) \<or>
           (a \<notin> queued (run xs (createApiInterceptor c onLine)) \<and>
            fired a (run xs (createApiInterceptor c onLine)) = 1)"
  using run_invariants(2) [OF assms created_invariants(1) created_invariants(2)]
  by (simp add: settled_once_def)

lemma one_retry_serial: "serial one_retry (createApiInterceptor no_options True)"
  by (simp add: one_retry_def admissible_def eval_defs)

lemma one_retry_eval:
  "next_addr (run one_retry (createApiInterceptor no_options True)) = 1"
  "pendingRequests (run one_retry (createApiInterceptor no_options True)) = []"
  by (simp_all add: one_retry_def eval_defs)

theorem settled_once_when_serial_witness:
  "fired 0 (run one_retry (createApiInterceptor no_options True)) = 1 \<and>
   0 \<notin> queued (run one_retry (createApiInterceptor no_options True))"
  using settled_once_when_serial [OF one_retry_serial]
  by (simp add: one_retry_eval queued_def)

section \<open>The retry count stays within the ceiling\<close>







end
